theory Spec2Isabelle
  imports Complex_Main "HOL-Library.Sublist" "HOL-Library.Log_Nat"
begin

section \<open>Values, exceptions and the Python built-ins the engine calls\<close>

text \<open>
  A decoded log payload and every rule parameter typed \<^verbatim>\<open>Any\<close> is a JSON value as
  \<^verbatim>\<open>json.load\<close> produces it: \<^verbatim>\<open>None\<close>, \<^verbatim>\<open>bool\<close>, \<^verbatim>\<open>int\<close>, \<^verbatim>\<open>float\<close>,
  \<^verbatim>\<open>str\<close>, \<^verbatim>\<open>list\<close> and \<^verbatim>\<open>dict\<close> with string keys. A finite float is kept by its
  exact rational value (Python compares \<^verbatim>\<open>int\<close> and \<^verbatim>\<open>float\<close> exactly); NaN and the
  infinities are not represented. A dict is an association list whose keys are distinct.
\<close>

datatype json =
    JNull
  | JBool bool
  | JInt int
  | JFloat rat
  | JStr string
  | JList "json list"
  | JDict "(string \<times> json) list"

text \<open>
  The exceptions that can arise while a rule is evaluated. All of them are subclasses of
  Python's \<^verbatim>\<open>Exception\<close>, which is what \<^verbatim>\<open>evaluate_rule\<close> catches;
  \<^verbatim>\<open>OtherException\<close> stands for whatever \<^verbatim>\<open>Exception\<close> a registered custom operator
  raises.
\<close>

datatype exn =
    ValueError string
  | KeyError string
  | TypeError
  | AttributeError
  | ReError
  | OtherException string

text \<open>
  Two library functions are taken as parameters: \<^verbatim>\<open>str()\<close> on a JSON value (used by the
  string operators and by the f-strings that build \<^verbatim>\<open>expected\<close>) and \<^verbatim>\<open>re.match\<close>
  (pattern, text), which may raise \<^verbatim>\<open>re.error\<close>.
\<close>

record builtins =
  py_str :: "json \<Rightarrow> string"
  re_match :: "string \<Rightarrow> string \<Rightarrow> exn + bool"

subsection \<open>Python comparison on JSON values\<close>

fun num_val :: "json \<Rightarrow> rat option" where
  "num_val (JBool b) = Some (if b then 1 else 0)"
| "num_val (JInt i) = Some (of_int i)"
| "num_val (JFloat r) = Some r"
| "num_val _ = None"

text \<open>\<^verbatim>\<open>a == b\<close>: numbers by value, strings and lists element-wise, dicts as mappings.\<close>

fun py_eq :: "json \<Rightarrow> json \<Rightarrow> bool"
  and py_eq_list :: "json list \<Rightarrow> json list \<Rightarrow> bool"
  and py_eq_items :: "(string \<times> json) list \<Rightarrow> (string \<times> json) list \<Rightarrow> bool" where
  "py_eq JNull b = (b = JNull)"
| "py_eq (JBool x) b = (num_val b = Some (if x then 1 else 0))"
| "py_eq (JInt i) b = (num_val b = Some (of_int i))"
| "py_eq (JFloat r) b = (num_val b = Some r)"
| "py_eq (JStr s) b = (b = JStr s)"
| "py_eq (JList xs) b = (case b of JList ys \<Rightarrow> py_eq_list xs ys | _ \<Rightarrow> False)"
| "py_eq (JDict d) b =
     (case b of JDict d' \<Rightarrow> length d = length d' \<and> py_eq_items d d' | _ \<Rightarrow> False)"
| "py_eq_list [] ys = (ys = [])"
| "py_eq_list (x # xs) ys =
     (case ys of [] \<Rightarrow> False | y # ys' \<Rightarrow> py_eq x y \<and> py_eq_list xs ys')"
| "py_eq_items [] d' = True"
| "py_eq_items ((k, v) # d) d' =
     ((case map_of d' k of None \<Rightarrow> False | Some w \<Rightarrow> py_eq v w) \<and> py_eq_items d d')"

datatype ordering = LT | EQ | GT

fun str_cmp :: "string \<Rightarrow> string \<Rightarrow> ordering" where
  "str_cmp [] [] = EQ"
| "str_cmp [] (y # ys) = LT"
| "str_cmp (x # xs) [] = GT"
| "str_cmp (x # xs) (y # ys) =
     (if x = y then str_cmp xs ys
      else if (of_char x :: nat) < of_char y then LT else GT)"

definition rat_cmp :: "rat \<Rightarrow> rat \<Rightarrow> ordering" where
  "rat_cmp x y = (if x < y then LT else if x = y then EQ else GT)"

text \<open>
  The ordering behind \<^verbatim>\<open>>=\<close>, \<^verbatim>\<open>>\<close>, \<^verbatim>\<open><=\<close>, \<^verbatim>\<open><\<close>: numbers with numbers, strings
  with strings, lists lexicographically (the first pair of elements that are not
  \<^verbatim>\<open>==\<close> decides); anything else raises \<^verbatim>\<open>TypeError\<close>.
\<close>

fun py_cmp :: "json \<Rightarrow> json \<Rightarrow> exn + ordering"
  and py_cmp_list :: "json list \<Rightarrow> json list \<Rightarrow> exn + ordering" where
  "py_cmp (JList xs) b = (case b of JList ys \<Rightarrow> py_cmp_list xs ys | _ \<Rightarrow> Inl TypeError)"
| "py_cmp (JStr s) b = (case b of JStr t \<Rightarrow> Inr (str_cmp s t) | _ \<Rightarrow> Inl TypeError)"
| "py_cmp JNull b = Inl TypeError"
| "py_cmp (JDict d) b = Inl TypeError"
| "py_cmp a b =
     (case (num_val a, num_val b) of
        (Some x, Some y) \<Rightarrow> Inr (rat_cmp x y)
      | _ \<Rightarrow> Inl TypeError)"
| "py_cmp_list [] [] = Inr EQ"
| "py_cmp_list [] (y # ys) = Inr LT"
| "py_cmp_list (x # xs) [] = Inr GT"
| "py_cmp_list (x # xs) (y # ys) =
     (if py_eq x y then py_cmp_list xs ys else py_cmp x y)"

definition compare_with :: "(ordering \<Rightarrow> bool) \<Rightarrow> json \<Rightarrow> json \<Rightarrow> exn + bool" where
  "compare_with accept a b =
     (case py_cmp a b of Inl e \<Rightarrow> Inl e | Inr c \<Rightarrow> Inr (accept c))"

definition py_in_list :: "json \<Rightarrow> json list \<Rightarrow> bool" where
  "py_in_list a xs = list_ex (\<lambda>x. py_eq x a) xs"

subsection \<open>Python floats\<close>

text \<open>
  A Python \<^verbatim>\<open>float\<close> is an IEEE 754 double. A finite double is kept by its exact
  rational value, and an arithmetic operation is the exact result rounded to the nearest
  double, ties to the even significand: 53 significant bits, and below \<open>2 powi (- 1022)\<close>
  the fixed spacing \<open>2 powi (- 1074)\<close> of the subnormal numbers. A result beyond the largest
  double (where Python gives \<^verbatim>\<open>inf\<close> or raises \<^verbatim>\<open>OverflowError\<close>) is not
  represented; \<^verbatim>\<open>pass_rate\<close> stays far below it whenever
  \<open>0 \<le> total_passed \<le> total_entries\<close>.
\<close>

text \<open>The exponent \<open>e\<close> with \<open>2 powi e \<le> x < 2 powi (e + 1)\<close>, for positive \<open>x\<close>.\<close>

definition ilog2 :: "rat \<Rightarrow> int" where
  "ilog2 x =
     (let (a, b) = quotient_of x;
          d = bitlen a - bitlen b
      in if x < 2 powi d then d - 1 else d)"

definition round_half_even :: "rat \<Rightarrow> int" where
  "round_half_even y =
     (let n = \<lfloor>y\<rfloor>; r = y - of_int n
      in if r < 1 / 2 then n
         else if 1 / 2 < r then n + 1
         else if even n then n else n + 1)"

definition round_to_double :: "rat \<Rightarrow> rat" where
  "round_to_double x =
     (if x = 0 then 0
      else let q = max (ilog2 \<bar>x\<bar> - 52) (- 1074)
           in of_int (round_half_even (x / 2 powi q)) * 2 powi q)"

text \<open>
  \<^verbatim>\<open>a / b\<close> on two \<^verbatim>\<open>int\<close>s (the correctly rounded quotient) and \<^verbatim>\<open>x * y\<close> on two
  floats.
\<close>

definition int_truediv :: "int \<Rightarrow> int \<Rightarrow> rat" where
  "int_truediv a b = round_to_double (of_int a / of_int b)"

definition float_mul :: "rat \<Rightarrow> rat \<Rightarrow> rat" where
  "float_mul x y = round_to_double (x * y)"

section \<open>Data model (models.py)\<close>

datatype Severity = INFO | WARNING | ERROR | CRITICAL

fun severity_value :: "Severity \<Rightarrow> string" where
  "severity_value INFO = ''info''"
| "severity_value WARNING = ''warning''"
| "severity_value ERROR = ''error''"
| "severity_value CRITICAL = ''critical''"

datatype ValidationStatus = PASS | FAIL

text \<open>
  Field names carry a prefix per class (\<open>r_\<close> Rule, \<open>e_\<close> LogEntry, \<open>v_\<close> Violation,
  \<open>er_\<close> EntryResult, \<open>rs_\<close> RobotSummary, \<open>rep_\<close> ValidationReport), since several
  classes share names. Fields are typed as the dataclasses declare them; \<^verbatim>\<open>Any\<close> is
  \<^typ>\<open>json\<close>, \<^verbatim>\<open>Optional[Dict]\<close> is an optional association list.
\<close>

record Rule =
  r_id :: string
  r_name :: string
  r_field :: string
  r_operator :: string
  r_threshold :: json
  r_severity :: Severity
  r_message :: string
  r_description :: string
  r_type :: string
  r_condition :: "(string \<times> json) list option"
  r_then :: "(string \<times> json) list option"

record LogEntry =
  e_timestamp :: string
  e_robot_id :: string
  e_raw_data :: "(string \<times> json) list"
  e_index :: int

record Violation =
  v_rule_id :: string
  v_rule_name :: string
  v_severity :: Severity
  v_message :: string
  v_timestamp :: string
  v_robot_id :: string
  v_field :: string
  v_actual_value :: json
  v_expected :: string
  v_log_index :: int

section \<open>Rule engine (rule_engine.py)\<close>

type_synonym operator = "json \<Rightarrow> json \<Rightarrow> exn + bool"

record RuleEngine =
  rules :: "Rule list"
  operators :: "string \<rightharpoonup> operator"

definition op_regex :: "builtins \<Rightarrow> operator" where
  "op_regex py a b =
     (if a \<noteq> JNull
      then (case b of JStr pat \<Rightarrow> re_match py pat (py_str py a) | _ \<Rightarrow> Inl TypeError)
      else Inr False)"

definition op_contains :: "builtins \<Rightarrow> operator" where
  "op_contains py a b =
     (if a \<noteq> JNull
      then (case b of JStr s \<Rightarrow> Inr (sublist s (py_str py a)) | _ \<Rightarrow> Inl TypeError)
      else Inr False)"

definition op_starts_with :: "builtins \<Rightarrow> operator" where
  "op_starts_with py a b =
     (if a \<noteq> JNull
      then (case b of JStr s \<Rightarrow> Inr (prefix s (py_str py a)) | _ \<Rightarrow> Inl TypeError)
      else Inr False)"

definition op_ends_with :: "builtins \<Rightarrow> operator" where
  "op_ends_with py a b =
     (if a \<noteq> JNull
      then (case b of JStr s \<Rightarrow> Inr (suffix s (py_str py a)) | _ \<Rightarrow> Inl TypeError)
      else Inr False)"

definition default_operators :: "builtins \<Rightarrow> string \<rightharpoonup> operator" where
  "default_operators py =
     [ ''>='' \<mapsto> (\<lambda>a b. if a \<noteq> JNull then compare_with (\<lambda>c. c \<noteq> LT) a b else Inr False),
       ''>'' \<mapsto> (\<lambda>a b. if a \<noteq> JNull then compare_with (\<lambda>c. c = GT) a b else Inr False),
       ''<='' \<mapsto> (\<lambda>a b. if a \<noteq> JNull then compare_with (\<lambda>c. c \<noteq> GT) a b else Inr False),
       ''<'' \<mapsto> (\<lambda>a b. if a \<noteq> JNull then compare_with (\<lambda>c. c = LT) a b else Inr False),
       ''=='' \<mapsto> (\<lambda>a b. Inr (py_eq a b)),
       ''!='' \<mapsto> (\<lambda>a b. Inr (\<not> py_eq a b)),
       ''in'' \<mapsto> (\<lambda>a b. case b of JList xs \<Rightarrow> Inr (py_in_list a xs) | _ \<Rightarrow> Inr False),
       ''not_in'' \<mapsto> (\<lambda>a b. case b of JList xs \<Rightarrow> Inr (\<not> py_in_list a xs) | _ \<Rightarrow> Inr True),
       ''regex'' \<mapsto> op_regex py,
       ''exists'' \<mapsto> (\<lambda>a b. Inr (py_eq (JBool (a \<noteq> JNull)) b)),
       ''contains'' \<mapsto> op_contains py,
       ''starts_with'' \<mapsto> op_starts_with py,
       ''ends_with'' \<mapsto> op_ends_with py ]"

definition RuleEngine_init :: "builtins \<Rightarrow> RuleEngine" where
  "RuleEngine_init py = \<lparr>rules = [], operators = default_operators py\<rparr>"

definition register_operator :: "RuleEngine \<Rightarrow> string \<Rightarrow> operator \<Rightarrow> RuleEngine" where
  "register_operator eng name func = eng\<lparr>operators := (operators eng)(name \<mapsto> func)\<rparr>"

subsection \<open>Field resolution\<close>

text \<open>\<^verbatim>\<open>field.split(".")\<close>: the pieces between the dots; never an empty list.\<close>

function split_dot :: "string \<Rightarrow> string list" where
  "split_dot s =
     (let part = takeWhile (\<lambda>c. c \<noteq> CHR ''.'') s
      in case dropWhile (\<lambda>c. c \<noteq> CHR ''.'') s of
           [] \<Rightarrow> [part]
         | _ # rest \<Rightarrow> part # split_dot rest)"
  by pat_completeness auto
termination
proof (relation "measure length")
  show "wf (measure length)" by simp
next
  fix s :: string and part x rest
  assume "dropWhile (\<lambda>c. c \<noteq> CHR ''.'') s = x # rest"
  then have "length (x # rest) \<le> length s"
    using length_dropWhile_le [of "\<lambda>c. c \<noteq> CHR ''.''" s] by simp
  then show "(rest, s) \<in> measure length" by simp
qed

definition dict_get :: "(string \<times> json) list \<Rightarrow> string \<Rightarrow> json" where
  "dict_get d k = (case map_of d k of None \<Rightarrow> JNull | Some v \<Rightarrow> v)"

text \<open>
  The \<^verbatim>\<open>for part in parts\<close> loop of \<^verbatim>\<open>get_field_value\<close>: the first argument is the
  loop variable \<^verbatim>\<open>data\<close>.
\<close>

fun walk :: "json \<Rightarrow> string list \<Rightarrow> json" where
  "walk current [] = current"
| "walk (JDict d) (part # parts) = walk (dict_get d part) parts"
| "walk _ (part # parts) = JNull"

text \<open>
  \<^verbatim>\<open>get_field_value(entry, field)\<close>. The declared type of \<^verbatim>\<open>field\<close> is \<^verbatim>\<open>str\<close>, but a
  conditional rule passes whatever its clause holds; on a value that is not a string
  \<^verbatim>\<open>field.split\<close> raises \<^verbatim>\<open>AttributeError\<close>.
\<close>

definition get_field_value :: "LogEntry \<Rightarrow> json \<Rightarrow> exn + json" where
  "get_field_value entry field =
     (case field of
        JStr path \<Rightarrow> Inr (walk (JDict (e_raw_data entry)) (split_dot path))
      | _ \<Rightarrow> Inl AttributeError)"

subsection \<open>Conditions and rules\<close>

text \<open>
  \<^verbatim>\<open>operator not in self._operators\<close>: a list or dict is unhashable (\<^verbatim>\<open>TypeError\<close>);
  any other value that is not a registered name gives
  \<^verbatim>\<open>ValueError(f"Unknown operator: {operator}")\<close>.
\<close>

definition evaluate_condition ::
  "builtins \<Rightarrow> RuleEngine \<Rightarrow> LogEntry \<Rightarrow> json \<Rightarrow> json \<Rightarrow> json \<Rightarrow> exn + bool" where
  "evaluate_condition py eng entry field operator val =
     (case get_field_value entry field of
        Inl e \<Rightarrow> Inl e
      | Inr actual_value \<Rightarrow>
          (case operator of
             JList _ \<Rightarrow> Inl TypeError
           | JDict _ \<Rightarrow> Inl TypeError
           | JStr name \<Rightarrow>
               (case operators eng name of
                  None \<Rightarrow> Inl (ValueError (''Unknown operator: '' @ name))
                | Some func \<Rightarrow> func actual_value val)
           | _ \<Rightarrow> Inl (ValueError (''Unknown operator: '' @ py_str py operator))))"

definition evaluate_simple_rule ::
  "builtins \<Rightarrow> RuleEngine \<Rightarrow> Rule \<Rightarrow> LogEntry \<Rightarrow> exn + Violation option" where
  "evaluate_simple_rule py eng rule entry =
     (case evaluate_condition py eng entry (JStr (r_field rule)) (JStr (r_operator rule))
             (r_threshold rule) of
        Inl e \<Rightarrow> Inl e
      | Inr passed \<Rightarrow>
          if \<not> passed then
            (case get_field_value entry (JStr (r_field rule)) of
               Inl e \<Rightarrow> Inl e
             | Inr actual_value \<Rightarrow>
                 Inr (Some \<lparr>v_rule_id = r_id rule, v_rule_name = r_name rule,
                            v_severity = r_severity rule, v_message = r_message rule,
                            v_timestamp = e_timestamp entry, v_robot_id = e_robot_id entry,
                            v_field = r_field rule, v_actual_value = actual_value,
                            v_expected = r_operator rule @ '' '' @ py_str py (r_threshold rule),
                            v_log_index = e_index entry\<rparr>))
          else Inr None)"

text \<open>\<^verbatim>\<open>d[key]\<close> on a dict: \<^verbatim>\<open>KeyError\<close> when the key is missing.\<close>

definition getitem :: "(string \<times> json) list \<Rightarrow> string \<Rightarrow> exn + json" where
  "getitem d k = (case map_of d k of None \<Rightarrow> Inl (KeyError k) | Some v \<Rightarrow> Inr v)"

text \<open>
  The three subscripts \<^verbatim>\<open>clause["field"]\<close>, \<^verbatim>\<open>clause["operator"]\<close>,
  \<^verbatim>\<open>clause["value"]\<close>, evaluated in this order as the arguments of a call.
\<close>

definition clause_args :: "(string \<times> json) list \<Rightarrow> exn + (json \<times> json \<times> json)" where
  "clause_args clause =
     (case getitem clause ''field'' of
        Inl e \<Rightarrow> Inl e
      | Inr f \<Rightarrow>
          (case getitem clause ''operator'' of
             Inl e \<Rightarrow> Inl e
           | Inr operator \<Rightarrow>
               (case getitem clause ''value'' of
                  Inl e \<Rightarrow> Inl e
                | Inr val \<Rightarrow> Inr (f, operator, val))))"

text \<open>\<^verbatim>\<open>not rule.condition\<close>: \<^verbatim>\<open>None\<close> and the empty dict are falsy.\<close>

fun falsy :: "(string \<times> json) list option \<Rightarrow> bool" where
  "falsy None = True"
| "falsy (Some d) = (d = [])"

definition evaluate_conditional_rule ::
  "builtins \<Rightarrow> RuleEngine \<Rightarrow> Rule \<Rightarrow> LogEntry \<Rightarrow> exn + Violation option" where
  "evaluate_conditional_rule py eng rule entry =
     (case (r_condition rule, r_then rule) of
        (Some cond, Some thn) \<Rightarrow>
          if falsy (Some cond) \<or> falsy (Some thn) then Inr None
          else
            (case clause_args cond of
               Inl e \<Rightarrow> Inl e
             | Inr (cf, cop, cv) \<Rightarrow>
            (case evaluate_condition py eng entry cf cop cv of
               Inl e \<Rightarrow> Inl e
             | Inr condition_met \<Rightarrow>
                 if \<not> condition_met then Inr None
                 else
            (case clause_args thn of
               Inl e \<Rightarrow> Inl e
             | Inr (tf, tp, tv) \<Rightarrow>
            (case evaluate_condition py eng entry tf tp tv of
               Inl e \<Rightarrow> Inl e
             | Inr then_passed \<Rightarrow>
                 if \<not> then_passed then
                   (case (get_field_value entry tf, tf) of
                      (Inr actual_value, JStr then_field) \<Rightarrow>
                        Inr (Some \<lparr>v_rule_id = r_id rule, v_rule_name = r_name rule,
                                   v_severity = r_severity rule, v_message = r_message rule,
                                   v_timestamp = e_timestamp entry,
                                   v_robot_id = e_robot_id entry,
                                   v_field = then_field, v_actual_value = actual_value,
                                   v_expected =
                                     py_str py tp @ '' '' @ py_str py tv @ '' (when ''
                                     @ py_str py cf @ '' '' @ py_str py cop @ '' ''
                                     @ py_str py cv @ '')'',
                                   v_log_index = e_index entry\<rparr>)
                    | (Inl e, _) \<Rightarrow> Inl e
                    | (Inr _, _) \<Rightarrow> Inl AttributeError)
                 else Inr None))))
      | _ \<Rightarrow> Inr None)"

text \<open>
  \<^verbatim>\<open>evaluate_rule\<close>: the \<^verbatim>\<open>try\<close> body dispatches on \<^verbatim>\<open>rule.type\<close>;
  \<^verbatim>\<open>except Exception\<close> turns every exception into \<^verbatim>\<open>None\<close>.
\<close>

definition evaluate_rule_body ::
  "builtins \<Rightarrow> RuleEngine \<Rightarrow> Rule \<Rightarrow> LogEntry \<Rightarrow> exn + Violation option" where
  "evaluate_rule_body py eng rule entry =
     (if r_type rule = ''conditional'' then evaluate_conditional_rule py eng rule entry
      else evaluate_simple_rule py eng rule entry)"

definition evaluate_rule ::
  "builtins \<Rightarrow> RuleEngine \<Rightarrow> Rule \<Rightarrow> LogEntry \<Rightarrow> Violation option" where
  "evaluate_rule py eng rule entry =
     (case evaluate_rule_body py eng rule entry of
        Inl e \<Rightarrow> None
      | Inr result \<Rightarrow> result)"

text \<open>
  \<^verbatim>\<open>RuleEngine.validate_entry\<close>: the loop over \<^verbatim>\<open>self.rules\<close>, appending each
  violation that is not \<^verbatim>\<open>None\<close>.
\<close>

fun collect_violations ::
  "builtins \<Rightarrow> RuleEngine \<Rightarrow> LogEntry \<Rightarrow> Rule list \<Rightarrow> Violation list \<Rightarrow> Violation list" where
  "collect_violations py eng entry [] violations = violations"
| "collect_violations py eng entry (rule # rest) violations =
     (case evaluate_rule py eng rule entry of
        None \<Rightarrow> collect_violations py eng entry rest violations
      | Some violation \<Rightarrow> collect_violations py eng entry rest (violations @ [violation]))"

definition engine_validate_entry :: "builtins \<Rightarrow> RuleEngine \<Rightarrow> LogEntry \<Rightarrow> Violation list" where
  "engine_validate_entry py eng entry = collect_violations py eng entry (rules eng) []"

section \<open>Validator (validator.py)\<close>

record EntryResult =
  er_log_entry :: LogEntry
  er_status :: ValidationStatus
  er_violations :: "Violation list"

definition passed :: "EntryResult \<Rightarrow> bool" where
  "passed result = (er_status result = PASS)"

record RobotSummary =
  rs_robot_id :: string
  rs_total_entries :: int
  rs_violations_count :: int
  rs_status :: ValidationStatus
  rs_violations :: "Violation list"

definition RobotSummary_init :: "string \<Rightarrow> RobotSummary" where
  "RobotSummary_init robot_id =
     \<lparr>rs_robot_id = robot_id, rs_total_entries = 0, rs_violations_count = 0,
      rs_status = PASS, rs_violations = []\<rparr>"

subsection \<open>The store of mutable containers\<close>

text \<open>
  The Validator's summary dict and its violation list are Python objects that
  \<^verbatim>\<open>get_report\<close> hands to the report by reference, so they live in a store and the
  Validator and the report hold addresses. A \<^verbatim>\<open>RobotSummary\<close> is only ever reached
  through its dict, so it is kept as the value under its key. The store also keeps the
  calls made to the two listeners, in order: a listener is modelled as an observer that
  returns normally and touches neither the Validator nor the store's containers.
\<close>

type_synonym addr = nat

datatype event = ViolationCall Violation | EntryCall EntryResult

record heap =
  dict_at :: "addr \<Rightarrow> (string \<rightharpoonup> RobotSummary)"
  list_at :: "addr \<Rightarrow> Violation list"
  next_addr :: addr
  calls :: "event list"

definition empty_heap :: heap where
  "empty_heap = \<lparr>dict_at = (\<lambda>_. Map.empty), list_at = (\<lambda>_. []), next_addr = 0, calls = []\<rparr>"

definition new_dict :: "heap \<Rightarrow> addr \<times> heap" where
  "new_dict h =
     (next_addr h, h\<lparr>dict_at := (dict_at h)(next_addr h := Map.empty),
                      next_addr := next_addr h + 1\<rparr>)"

definition new_list :: "heap \<Rightarrow> addr \<times> heap" where
  "new_list h =
     (next_addr h, h\<lparr>list_at := (list_at h)(next_addr h := []),
                      next_addr := next_addr h + 1\<rparr>)"

record ValidationReport =
  rep_total_entries :: int
  rep_total_passed :: int
  rep_total_violations :: int
  rep_pass_rate :: rat
  rep_violations_by_rule :: "string \<rightharpoonup> int"
  rep_violations_by_severity :: "string \<rightharpoonup> int"
  rep_robot_summaries :: addr
  rep_violations :: addr
  rep_generated_at :: string
  rep_rules_file :: string
  rep_input_file :: string

text \<open>
  The Validator's attributes, without the leading underscore of the private ones.
  \<open>on_violation\<close> and \<open>on_entry\<close> say whether a listener is registered. The \<^verbatim>\<open>pass_rate\<close>
  of a report is a double.
\<close>

record Validator =
  rule_engine :: RuleEngine
  on_violation :: bool
  on_entry :: bool
  total_entries :: int
  total_passed :: int
  total_violations :: int
  violations_by_rule :: "string \<rightharpoonup> int"
  violations_by_severity :: "string \<rightharpoonup> int"
  robot_summaries :: addr
  all_violations :: addr

definition Validator_init :: "RuleEngine \<Rightarrow> bool \<Rightarrow> bool \<Rightarrow> heap \<Rightarrow> Validator \<times> heap" where
  "Validator_init eng on_v on_e h =
     (let (d, h1) = new_dict h;
          (l, h2) = new_list h1
      in (\<lparr>rule_engine = eng, on_violation = on_v, on_entry = on_e,
           total_entries = 0, total_passed = 0, total_violations = 0,
           violations_by_rule = Map.empty, violations_by_severity = Map.empty,
           robot_summaries = d, all_violations = l\<rparr>, h2))"

definition reset :: "Validator \<Rightarrow> heap \<Rightarrow> Validator \<times> heap" where
  "reset v h =
     (let (d, h1) = new_dict h;
          (l, h2) = new_list h1
      in (v\<lparr>total_entries := 0, total_passed := 0, total_violations := 0,
            violations_by_rule := Map.empty, violations_by_severity := Map.empty,
            robot_summaries := d, all_violations := l\<rparr>, h2))"

definition pass_rate :: "Validator \<Rightarrow> rat" where
  "pass_rate v =
     (if total_entries v = 0 then 100
      else float_mul (int_truediv (total_passed v) (total_entries v)) 100)"

text \<open>\<^verbatim>\<open>d[k] += 1\<close> on a \<^verbatim>\<open>defaultdict(int)\<close>.\<close>

definition incr :: "(string \<rightharpoonup> int) \<Rightarrow> string \<Rightarrow> (string \<rightharpoonup> int)" where
  "incr m k = m(k \<mapsto> (case m k of None \<Rightarrow> 0 | Some n \<Rightarrow> n) + 1)"

text \<open>An assignment to attributes of the summary object stored under key \<open>k\<close>.\<close>

definition mutate_summary ::
  "heap \<Rightarrow> addr \<Rightarrow> string \<Rightarrow> (RobotSummary \<Rightarrow> RobotSummary) \<Rightarrow> heap" where
  "mutate_summary h a k f =
     h\<lparr>dict_at := (dict_at h)(a := (dict_at h a)(k := map_option f (dict_at h a k)))\<rparr>"

definition notify :: "heap \<Rightarrow> event \<Rightarrow> heap" where
  "notify h ev = h\<lparr>calls := calls h @ [ev]\<rparr>"

text \<open>One round of the loop \<^verbatim>\<open>for violation in violations\<close> of \<^verbatim>\<open>validate_entry\<close>.\<close>

definition record_violation ::
  "string \<Rightarrow> Validator \<times> heap \<Rightarrow> Violation \<Rightarrow> Validator \<times> heap" where
  "record_violation robot_id s violation =
     (let v = fst s; h = snd s;
          v1 = v\<lparr>total_violations := total_violations v + 1,
                 violations_by_rule := incr (violations_by_rule v) (v_rule_id violation),
                 violations_by_severity :=
                   incr (violations_by_severity v) (severity_value (v_severity violation))\<rparr>;
          h1 = h\<lparr>list_at := (list_at h)(all_violations v :=
                                   list_at h (all_violations v) @ [violation])\<rparr>;
          h2 = mutate_summary h1 (robot_summaries v) robot_id
                 (\<lambda>rs. rs\<lparr>rs_violations_count := rs_violations_count rs + 1,
                           rs_status := FAIL,
                           rs_violations := rs_violations rs @ [violation]\<rparr>);
          h3 = (if on_violation v then notify h2 (ViolationCall violation) else h2)
      in (v1, h3))"

fun process_violations ::
  "string \<Rightarrow> Violation list \<Rightarrow> Validator \<times> heap \<Rightarrow> Validator \<times> heap" where
  "process_violations robot_id [] s = s"
| "process_violations robot_id (violation # rest) s =
     process_violations robot_id rest (record_violation robot_id s violation)"

definition validate_entry ::
  "builtins \<Rightarrow> Validator \<Rightarrow> LogEntry \<Rightarrow> heap \<Rightarrow> EntryResult \<times> Validator \<times> heap" where
  "validate_entry py v entry h =
     (let violations = engine_validate_entry py (rule_engine v) entry;
          status = (if violations = [] then PASS else FAIL);
          result = \<lparr>er_log_entry = entry, er_status = status, er_violations = violations\<rparr>;
          v1 = v\<lparr>total_entries := total_entries v + 1\<rparr>;
          v2 = (if passed result then v1\<lparr>total_passed := total_passed v1 + 1\<rparr> else v1);
          robot_id = e_robot_id entry;
          d = robot_summaries v2;
          h1 = (if dict_at h d robot_id = None
                then h\<lparr>dict_at := (dict_at h)(d :=
                                       (dict_at h d)(robot_id \<mapsto> RobotSummary_init robot_id))\<rparr>
                else h);
          h2 = mutate_summary h1 d robot_id
                 (\<lambda>rs. rs\<lparr>rs_total_entries := rs_total_entries rs + 1\<rparr>);
          s3 = process_violations robot_id violations (v2, h2);
          h4 = (if on_entry (fst s3) then notify (snd s3) (EntryCall result) else snd s3)
      in (result, fst s3, h4))"

text \<open>
  \<^verbatim>\<open>validate_all\<close> is \<^verbatim>\<open>list(validate_stream(entries))\<close>: the entries one at a time,
  each fully processed before the next is pulled. A stream consumed only in part is
  \<open>validate_all\<close> on the consumed prefix.
\<close>

fun validate_all ::
  "builtins \<Rightarrow> Validator \<Rightarrow> LogEntry list \<Rightarrow> heap \<Rightarrow> EntryResult list \<times> Validator \<times> heap" where
  "validate_all py v [] h = ([], v, h)"
| "validate_all py v (entry # entries) h =
     (case validate_entry py v entry h of
        (result, v', h') \<Rightarrow>
          (case validate_all py v' entries h' of
             (results, v'', h'') \<Rightarrow> (result # results, v'', h'')))"

text \<open>
  \<^verbatim>\<open>get_report\<close>. \<open>now\<close> is what \<^verbatim>\<open>datetime.utcnow().isoformat()\<close> returns when the
  report is constructed. The two counter dicts are copied (\<^verbatim>\<open>dict(...)\<close>); the summary
  dict and the violation list are passed as they are.
\<close>

definition get_report :: "Validator \<Rightarrow> string \<Rightarrow> string \<Rightarrow> string \<Rightarrow> ValidationReport" where
  "get_report v rules_file input_file now =
     \<lparr>rep_total_entries = total_entries v,
      rep_total_passed = total_passed v,
      rep_total_violations = total_violations v,
      rep_pass_rate = pass_rate v,
      rep_violations_by_rule = violations_by_rule v,
      rep_violations_by_severity = violations_by_severity v,
      rep_robot_summaries = robot_summaries v,
      rep_violations = all_violations v,
      rep_generated_at = now @ ''Z'',
      rep_rules_file = rules_file,
      rep_input_file = input_file\<rparr>"

text \<open>What a reader of the report sees in its two container fields, in store \<open>h\<close>.\<close>

definition report_robot_summaries :: "heap \<Rightarrow> ValidationReport \<Rightarrow> (string \<rightharpoonup> RobotSummary)" where
  "report_robot_summaries h report = dict_at h (rep_robot_summaries report)"

definition report_violations :: "heap \<Rightarrow> ValidationReport \<Rightarrow> Violation list" where
  "report_violations h report = list_at h (rep_violations report)"

section \<open>Specification functions and example data\<close>

text \<open>\<^verbatim>\<open>".".join(parts)\<close>, the inverse that characterises \<^verbatim>\<open>split\<close>.\<close>

fun join_dot :: "string list \<Rightarrow> string" where
  "join_dot [] = []"
| "join_dot [p] = p"
| "join_dot (p # q # ps) = p @ CHR ''.'' # join_dot (q # ps)"

definition is_dict :: "json \<Rightarrow> bool" where
  "is_dict x = (case x of JDict _ \<Rightarrow> True | _ \<Rightarrow> False)"


text \<open>
  A concrete environment for the examples: \<^verbatim>\<open>str()\<close> as Python prints \<^verbatim>\<open>None\<close>,
  booleans, integers and strings (the examples format no other value), and \<^verbatim>\<open>re.match\<close>
  for patterns without metacharacters, which match exactly the texts they are a prefix of.
\<close>

function dec_str :: "nat \<Rightarrow> string" where
  "dec_str n =
     (if n < 10 then [''0123456789'' ! n]
      else dec_str (n div 10) @ [''0123456789'' ! (n mod 10)])"
  by pat_completeness auto
termination
  by (relation "measure id") auto

definition int_str :: "int \<Rightarrow> string" where
  "int_str i = (if i < 0 then CHR ''-'' # dec_str (nat (- i)) else dec_str (nat i))"

fun str_basic :: "json \<Rightarrow> string" where
  "str_basic JNull = ''None''"
| "str_basic (JBool b) = (if b then ''True'' else ''False'')"
| "str_basic (JInt i) = int_str i"
| "str_basic (JStr s) = s"
| "str_basic _ = ''''"

definition test_builtins :: builtins where
  "test_builtins = \<lparr>py_str = str_basic, re_match = (\<lambda>pat text. Inr (prefix pat text))\<rparr>"

definition battery_min :: Rule where
  "battery_min =
     \<lparr>r_id = ''battery_min'', r_name = ''Battery Minimum'', r_field = ''battery_level'',
      r_operator = ''>='', r_threshold = JInt 20, r_severity = WARNING,
      r_message = ''Battery below 20%'', r_description = '''', r_type = ''simple'',
      r_condition = None, r_then = None\<rparr>"

definition low_battery_idle :: Rule where
  "low_battery_idle =
     \<lparr>r_id = ''low_battery_idle'', r_name = ''low_battery_idle'', r_field = '''',
      r_operator = '''', r_threshold = JNull, r_severity = ERROR,
      r_message = '''', r_description = '''', r_type = ''conditional'',
      r_condition = Some [(''field'', JStr ''battery_level''), (''operator'', JStr ''<''),
                          (''value'', JInt 10)],
      r_then = Some [(''field'', JStr ''movement_state''), (''operator'', JStr ''in''),
                     (''value'', JList [JStr ''idle'', JStr ''stopped''])]\<rparr>"

definition log_entry :: "string \<Rightarrow> (string \<times> json) list \<Rightarrow> int \<Rightarrow> LogEntry" where
  "log_entry rid payload i =
     \<lparr>e_timestamp = ''2024-01-15T08:00:00Z'', e_robot_id = rid,
      e_raw_data = payload, e_index = i\<rparr>"


definition typo_in_condition :: Rule where
  "typo_in_condition =
     low_battery_idle\<lparr>r_condition :=
       Some [(''field'', JStr ''battery_level''), (''operator'', JStr ''<<''),
             (''value'', JInt 10)]\<rparr>"

definition typo_in_then :: Rule where
  "typo_in_then =
     low_battery_idle\<lparr>r_then :=
       Some [(''field'', JStr ''movement_state''), (''operator'', JStr ''inn''),
             (''value'', JList [JStr ''idle'', JStr ''stopped''])]\<rparr>"

definition moving_at :: "int \<Rightarrow> LogEntry" where
  "moving_at battery =
     log_entry ''ROBOT_001''
       [(''battery_level'', JInt battery), (''movement_state'', JStr ''moving'')] 0"

subsection \<open>What the summaries are compared with, and a sample run\<close>

text \<open>The summary of one robot after the violations \<open>xs\<close> of one entry have been counted.\<close>

definition count_violations :: "Violation list \<Rightarrow> RobotSummary \<Rightarrow> RobotSummary" where
  "count_violations xs rs =
     rs\<lparr>rs_violations_count := rs_violations_count rs + int (length xs),
        rs_status := (if xs = [] then rs_status rs else FAIL),
        rs_violations := rs_violations rs @ xs\<rparr>"

text \<open>The summary under a key, or the one \<^verbatim>\<open>validate_entry\<close> would create for it.\<close>

definition summary_at :: "heap \<Rightarrow> addr \<Rightarrow> string \<Rightarrow> RobotSummary" where
  "summary_at h d k = (case dict_at h d k of None \<Rightarrow> RobotSummary_init k | Some rs \<Rightarrow> rs)"

text \<open>The processed entries of one robot, and the violations a list of entries produces.\<close>

definition entries_of :: "string \<Rightarrow> LogEntry list \<Rightarrow> LogEntry list" where
  "entries_of robot es = filter (\<lambda>e. e_robot_id e = robot) es"

definition violations_of ::
  "builtins \<Rightarrow> RuleEngine \<Rightarrow> LogEntry list \<Rightarrow> Violation list" where
  "violations_of py eng es = concat (map (engine_validate_entry py eng) es)"

text \<open>
  The rules and the four log entries of the test suite (\<^verbatim>\<open>tests/test_validator.py\<close>), a
  run over all four, and a run that takes a report after two entries and then processes
  the third.
\<close>

definition speed_max :: Rule where
  "speed_max =
     \<lparr>r_id = ''speed_max'', r_name = ''Speed Maximum'', r_field = ''speed'',
      r_operator = ''<='', r_threshold = JInt 100, r_severity = ERROR,
      r_message = ''Speed exceeds limit'', r_description = '''', r_type = ''simple'',
      r_condition = None, r_then = None\<rparr>"

definition test_engine :: RuleEngine where
  "test_engine = (RuleEngine_init test_builtins)\<lparr>rules := [battery_min, speed_max]\<rparr>"

definition robot_log :: "string \<Rightarrow> string \<Rightarrow> int \<Rightarrow> int \<Rightarrow> int \<Rightarrow> LogEntry" where
  "robot_log ts robot battery speed i =
     \<lparr>e_timestamp = ts, e_robot_id = robot,
      e_raw_data = [(''timestamp'', JStr ts), (''robot_id'', JStr robot),
                    (''battery_level'', JInt battery), (''speed'', JInt speed)],
      e_index = i\<rparr>"

definition sample_logs :: "LogEntry list" where
  "sample_logs =
     [robot_log ''2024-01-15T08:00:00Z'' ''ROBOT_001'' 80 50 0,
      robot_log ''2024-01-15T08:00:05Z'' ''ROBOT_001'' 15 40 1,
      robot_log ''2024-01-15T08:00:10Z'' ''ROBOT_002'' 60 120 2,
      robot_log ''2024-01-15T08:00:15Z'' ''ROBOT_002'' 10 110 3]"

definition fresh_validator :: "Validator \<times> heap" where
  "fresh_validator = Validator_init test_engine False False empty_heap"

definition sample_run :: "EntryResult list \<times> Validator \<times> heap" where
  "sample_run =
     validate_all test_builtins (fst fresh_validator) sample_logs (snd fresh_validator)"

definition after_two :: "EntryResult list \<times> Validator \<times> heap" where
  "after_two =
     validate_all test_builtins (fst fresh_validator) (take 2 sample_logs) (snd fresh_validator)"

definition snapshot :: ValidationReport where
  "snapshot = get_report (fst (snd after_two)) ''rules.json'' ''logs.json''
                ''2024-01-15T09:00:00.000000''"

definition after_three :: "EntryResult \<times> Validator \<times> heap" where
  "after_three =
     validate_entry test_builtins (fst (snd after_two)) (sample_logs ! 2) (snd (snd after_two))"

text \<open>A run of 25 entries of which 7 pass.\<close>

definition run_7_of_25 :: "EntryResult list \<times> Validator \<times> heap" where
  "run_7_of_25 =
     validate_all test_builtins (fst fresh_validator)
       (replicate 7 (robot_log ''2024-01-15T08:00:00Z'' ''ROBOT_001'' 80 50 0)
        @ replicate 18 (robot_log ''2024-01-15T08:00:05Z'' ''ROBOT_001'' 15 40 1))
       (snd fresh_validator)"

section \<open>Properties of the rule engine\<close>

declare split_dot.simps [simp del]

lemma split_dot_Nil: "split_dot [] = [[]]"
  by (simp add: split_dot.simps)

lemma split_dot_dot: "split_dot (CHR ''.'' # cs) = [] # split_dot cs"
  by (subst split_dot.simps) simp

lemma split_dot_char:
  assumes "c \<noteq> CHR ''.''"
  shows "split_dot (c # cs) = (c # hd (split_dot cs)) # tl (split_dot cs)"
proof (cases "dropWhile (\<lambda>c. c \<noteq> CHR ''.'') cs")
  case Nil
  have "split_dot (c # cs) = [c # takeWhile (\<lambda>c. c \<noteq> CHR ''.'') cs]"
    by (subst split_dot.simps) (simp add: Let_def Nil assms)
  moreover have "split_dot cs = [takeWhile (\<lambda>c. c \<noteq> CHR ''.'') cs]"
    by (subst split_dot.simps) (simp add: Let_def Nil)
  ultimately show ?thesis by simp
next
  case (Cons x rest)
  have "split_dot (c # cs) = (c # takeWhile (\<lambda>c. c \<noteq> CHR ''.'') cs) # split_dot rest"
    by (subst split_dot.simps) (simp add: Let_def Cons assms)
  moreover have "split_dot cs = takeWhile (\<lambda>c. c \<noteq> CHR ''.'') cs # split_dot rest"
    by (subst split_dot.simps) (simp add: Let_def Cons)
  ultimately show ?thesis by simp
qed

lemma split_dot_not_Nil: "split_dot s \<noteq> []"
  by (subst split_dot.simps) (simp add: Let_def split: list.splits)

lemma join_dot_Cons: "ps \<noteq> [] \<Longrightarrow> join_dot (p # ps) = p @ CHR ''.'' # join_dot ps"
  by (cases ps) simp_all

lemma join_dot_cons_hd: "ps \<noteq> [] \<Longrightarrow> join_dot ((c # hd ps) # tl ps) = c # join_dot ps"
  by (cases ps rule: join_dot.cases) simp_all

lemma join_split_dot: "join_dot (split_dot s) = s"
proof (induction s)
  case Nil
  show ?case by (simp add: split_dot_Nil)
next
  case (Cons c cs)
  show ?case
  proof (cases "c = CHR ''.''")
    case True
    then show ?thesis using Cons by (simp add: split_dot_dot join_dot_Cons split_dot_not_Nil)
  next
    case False
    then show ?thesis using Cons by (simp add: split_dot_char join_dot_cons_hd split_dot_not_Nil)
  qed
qed

lemma split_dot_no_dot: "p \<in> set (split_dot s) \<Longrightarrow> CHR ''.'' \<notin> set p"
proof (induction s arbitrary: p)
  case Nil
  then show ?case by (simp add: split_dot_Nil)
next
  case (Cons c cs)
  show ?case
  proof (cases "c = CHR ''.''")
    case True
    then show ?thesis using Cons by (auto simp: split_dot_dot)
  next
    case False
    have ne: "split_dot cs \<noteq> []" by (rule split_dot_not_Nil)
    then have "hd (split_dot cs) \<in> set (split_dot cs)" by simp
    moreover have "set (tl (split_dot cs)) \<subseteq> set (split_dot cs)"
      using ne by (cases "split_dot cs") auto
    ultimately show ?thesis using Cons False by (auto simp: split_dot_char)
  qed
qed

lemma walk_append: "walk cur (pre @ post) = walk (walk cur pre) post"
  by (induction cur pre rule: walk.induct) (simp_all, (cases post; simp)+)

lemma walk_non_dict: "\<not> is_dict cur \<Longrightarrow> walk cur (part # post) = JNull"
  by (cases cur) (simp_all add: is_dict_def)

declare dec_str.simps [simp del]

lemmas split_eval = split_dot_Nil split_dot_dot split_dot_char

lemma get_field_value_str:
  "get_field_value entry (JStr path) = Inr (walk (JDict (e_raw_data entry)) (split_dot path))"
  by (simp add: get_field_value_def)

lemma evaluate_condition_str:
  "evaluate_condition py eng entry (JStr f) (JStr name) val =
     (case operators eng name of
        None \<Rightarrow> Inl (ValueError (''Unknown operator: '' @ name))
      | Some func \<Rightarrow> func (walk (JDict (e_raw_data entry)) (split_dot f)) val)"
  by (simp add: evaluate_condition_def get_field_value_def)

lemma split_dot_plain: "CHR ''.'' \<notin> set key \<Longrightarrow> split_dot key = [key]"
proof (induction key)
  case Nil
  show ?case by (simp add: split_dot_Nil)
next
  case (Cons c key)
  then have "c \<noteq> CHR ''.''" and "split_dot key = [key]"
    by auto
  then show ?case by (simp add: split_dot_char)
qed

lemma split_dot_first:
  "CHR ''.'' \<notin> set key \<Longrightarrow> split_dot (key @ CHR ''.'' # rest) = key # split_dot rest"
proof (induction key)
  case Nil
  show ?case by (simp add: split_dot_dot)
next
  case (Cons c key)
  then have "c \<noteq> CHR ''.''"
    and "split_dot (key @ CHR ''.'' # rest) = key # split_dot rest"
    by auto
  then show ?case by (simp add: split_dot_char)
qed

lemma get_field_value_plain:
  "CHR ''.'' \<notin> set path \<Longrightarrow>
   get_field_value entry (JStr path) =
     Inr (case map_of (e_raw_data entry) path of None \<Rightarrow> JNull | Some v \<Rightarrow> v)"
  by (simp add: get_field_value_str split_dot_plain dict_get_def)

lemma get_field_value_nested:
  "CHR ''.'' \<notin> set key \<Longrightarrow>
   get_field_value entry (JStr (key @ CHR ''.'' # rest)) =
     (case map_of (e_raw_data entry) key of
        Some (JDict d) \<Rightarrow> get_field_value (entry\<lparr>e_raw_data := d\<rparr>) (JStr rest)
      | _ \<Rightarrow> Inr JNull)"
proof -
  obtain part parts where p: "split_dot rest = part # parts"
    using split_dot_not_Nil [of rest] by (cases "split_dot rest") auto
  assume "CHR ''.'' \<notin> set key"
  then show ?thesis
    by (simp add: get_field_value_str split_dot_first dict_get_def p
        split: option.splits json.splits)
qed


text \<open>
  Claim C7. For every log entry and every dotted path, \<open>get_field_value\<close> returns a
  value (it never raises): the result of walking the payload along the pieces of the path
  between the dots. Joining the pieces with dots gives the path back and no piece holds a
  dot. Whenever the value reached before some piece is not a dict, the result is null.
  The three examples of the specification evaluate to 7, null and null. Each step is the
  lookup of the piece in the dict at hand: a path without a dot gives the value stored
  under it in the payload, or null when the payload has no such key; a path
  \<open>key.rest\<close> gives what \<open>rest\<close> resolves to in the dict stored under \<open>key\<close>, and null
  when that key is missing or holds something other than a dict.
\<close>

theorem get_field_value_walks_path:
  "get_field_value entry (JStr path) = Inr (walk (JDict (e_raw_data entry)) (split_dot path))
   \<and> join_dot (split_dot path) = path
   \<and> (\<forall>p \<in> set (split_dot path). CHR ''.'' \<notin> set p)
   \<and> (\<forall>pre part post.
         split_dot path = pre @ part # post
         \<and> \<not> is_dict (walk (JDict (e_raw_data entry)) pre)
         \<longrightarrow> get_field_value entry (JStr path) = Inr JNull)
   \<and> get_field_value (entry\<lparr>e_raw_data := [(''a'', JDict [(''b'', JDict [(''c'', JInt 7)])])]\<rparr>)
         (JStr ''a.b.c'') = Inr (JInt 7)
   \<and> get_field_value (entry\<lparr>e_raw_data := [(''a'', JDict [(''b'', JNull)])]\<rparr>)
         (JStr ''a.b.c'') = Inr JNull
   \<and> get_field_value (entry\<lparr>e_raw_data := [(''a'', JInt 5)]\<rparr>) (JStr ''a.b.c'') = Inr JNull
   \<and> (CHR ''.'' \<notin> set path \<longrightarrow>
         get_field_value entry (JStr path) =
           Inr (case map_of (e_raw_data entry) path of None \<Rightarrow> JNull | Some v \<Rightarrow> v))
   \<and> (\<forall>key rest. CHR ''.'' \<notin> set key \<and> path = key @ CHR ''.'' # rest \<longrightarrow>
         get_field_value entry (JStr path) =
           (case map_of (e_raw_data entry) key of
              Some (JDict d) \<Rightarrow> get_field_value (entry\<lparr>e_raw_data := d\<rparr>) (JStr rest)
            | _ \<Rightarrow> Inr JNull))
   \<and> get_field_value (entry\<lparr>e_raw_data := [(''x'', JInt 1), (''y'', JInt 2)]\<rparr>) (JStr ''y'')
       = Inr (JInt 2)
   \<and> get_field_value (entry\<lparr>e_raw_data := [(''x'', JInt 1), (''y'', JInt 2)]\<rparr>) (JStr ''z'')
       = Inr JNull
   \<and> get_field_value
         (entry\<lparr>e_raw_data := [(''speed'', JInt 50),
                                (''location'', JDict [(''x'', JInt 100), (''y'', JInt 200)])]\<rparr>)
         (JStr ''location.y'') = Inr (JInt 200)"
proof (intro conjI allI impI ballI)
  show "get_field_value entry (JStr path) = Inr (walk (JDict (e_raw_data entry)) (split_dot path))"
    by (rule get_field_value_str)
  show "join_dot (split_dot path) = path"
    by (rule join_split_dot)
  show "CHR ''.'' \<notin> set p" if "p \<in> set (split_dot path)" for p
    using that by (rule split_dot_no_dot)
  show "get_field_value entry (JStr path) = Inr JNull"
    if "split_dot path = pre @ part # post
        \<and> \<not> is_dict (walk (JDict (e_raw_data entry)) pre)" for pre part post
    using that by (simp add: get_field_value_str walk_append walk_non_dict)
  show "get_field_value (entry\<lparr>e_raw_data := [(''a'', JDict [(''b'', JDict [(''c'', JInt 7)])])]\<rparr>)
         (JStr ''a.b.c'') = Inr (JInt 7)"
    by (simp add: get_field_value_str split_eval dict_get_def)
  show "get_field_value (entry\<lparr>e_raw_data := [(''a'', JDict [(''b'', JNull)])]\<rparr>)
         (JStr ''a.b.c'') = Inr JNull"
    by (simp add: get_field_value_str split_eval dict_get_def)
  show "get_field_value (entry\<lparr>e_raw_data := [(''a'', JInt 5)]\<rparr>) (JStr ''a.b.c'') = Inr JNull"
    by (simp add: get_field_value_str split_eval dict_get_def)
  show "get_field_value entry (JStr path) =
           Inr (case map_of (e_raw_data entry) path of None \<Rightarrow> JNull | Some v \<Rightarrow> v)"
    if "CHR ''.'' \<notin> set path"
    using that by (rule get_field_value_plain)
  show "get_field_value entry (JStr path) =
           (case map_of (e_raw_data entry) key of
              Some (JDict d) \<Rightarrow> get_field_value (entry\<lparr>e_raw_data := d\<rparr>) (JStr rest)
            | _ \<Rightarrow> Inr JNull)"
    if "CHR ''.'' \<notin> set key \<and> path = key @ CHR ''.'' # rest" for key rest
    using that get_field_value_nested [of key entry rest] by simp
  show "get_field_value (entry\<lparr>e_raw_data := [(''x'', JInt 1), (''y'', JInt 2)]\<rparr>) (JStr ''y'')
       = Inr (JInt 2)"
    by (simp add: get_field_value_plain)
  show "get_field_value (entry\<lparr>e_raw_data := [(''x'', JInt 1), (''y'', JInt 2)]\<rparr>) (JStr ''z'')
       = Inr JNull"
    by (simp add: get_field_value_plain)
  show "get_field_value
         (entry\<lparr>e_raw_data := [(''speed'', JInt 50),
                                (''location'', JDict [(''x'', JInt 100), (''y'', JInt 200)])]\<rparr>)
         (JStr ''location.y'') = Inr (JInt 200)"
    using get_field_value_nested [of "''location''" _ "''y''"]
    by (simp add: get_field_value_plain)
qed

theorem get_field_value_walks_path_witness:
  "''b'' \<in> set (split_dot ''a.b'')
   \<and> CHR ''.'' \<notin> set ''b''
   \<and> split_dot ''a.b'' = [''a''] @ ''b'' # []
   \<and> \<not> is_dict (walk (JDict (e_raw_data (log_entry ''R1'' [(''a'', JInt 5)] 0))) [''a''])
   \<and> get_field_value (log_entry ''R1'' [(''a'', JInt 5)] 0) (JStr ''a.b'') = Inr JNull
   \<and> CHR ''.'' \<notin> set ''a''
   \<and> ''a.b'' = ''a'' @ CHR ''.'' # ''b''
   \<and> map_of (e_raw_data (log_entry ''R1'' [(''a'', JInt 5)] 0)) ''a'' = Some (JInt 5)
   \<and> CHR ''.'' \<notin> set ''speed''
   \<and> map_of (e_raw_data (robot_log ''2024-01-15T08:00:00Z'' ''ROBOT_001'' 80 50 0)) ''speed''
       = Some (JInt 50)
   \<and> get_field_value (robot_log ''2024-01-15T08:00:00Z'' ''ROBOT_001'' 80 50 0) (JStr ''speed'')
       = Inr (JInt 50)
   \<and> map_of (e_raw_data (robot_log ''2024-01-15T08:00:00Z'' ''ROBOT_001'' 80 50 0)) ''load''
       = None
   \<and> get_field_value (robot_log ''2024-01-15T08:00:00Z'' ''ROBOT_001'' 80 50 0) (JStr ''load'')
       = Inr JNull"
proof -
  let ?e = "log_entry ''R1'' [(''a'', JInt 5)] 0"
  let ?r = "robot_log ''2024-01-15T08:00:00Z'' ''ROBOT_001'' 80 50 0"
  have s: "split_dot ''a.b'' = [''a''] @ ''b'' # []"
    by (simp add: split_eval)
  have m: "''b'' \<in> set (split_dot ''a.b'')"
    by (simp add: split_eval)
  have d: "\<not> is_dict (walk (JDict (e_raw_data ?e)) [''a''])"
    by (simp add: log_entry_def dict_get_def is_dict_def)
  have k: "map_of (e_raw_data ?e) ''a'' = Some (JInt 5)"
    by (simp add: log_entry_def)
  have sp: "map_of (e_raw_data ?r) ''speed'' = Some (JInt 50)"
    by (simp add: robot_log_def)
  have ld: "map_of (e_raw_data ?r) ''load'' = None"
    by (simp add: robot_log_def)
  have n1: "CHR ''.'' \<notin> set ''speed''" and n2: "CHR ''.'' \<notin> set ''load''"
    and n3: "CHR ''.'' \<notin> set ''a''" and n4: "CHR ''.'' \<notin> set ''b''"
    by simp_all
  note t1 = get_field_value_walks_path [of ?e "''a.b''"]
  have r1: "get_field_value ?e (JStr ''a.b'') = Inr JNull"
    using t1 s d by blast
  note plain = get_field_value_walks_path [THEN conjunct2, THEN conjunct2, THEN conjunct2,
      THEN conjunct2, THEN conjunct2, THEN conjunct2, THEN conjunct2, THEN conjunct1,
      rule_format]
  have r2: "get_field_value ?r (JStr ''speed'') = Inr (JInt 50)"
    by (simp only: plain [OF n1] sp option.case)
  have r3: "get_field_value ?r (JStr ''load'') = Inr JNull"
    by (simp only: plain [OF n2] ld option.case)
  have j: "''a.b'' = ''a'' @ CHR ''.'' # ''b''"
    by simp
  from s m n4 d r1 n3 j k n1 sp r2 ld r3 show ?thesis
    by (intro conjI)
qed

text \<open>
  Claim C5. Called directly, \<open>evaluate_condition\<close> with an operator name that is not
  in the registry raises the unknown-operator \<^verbatim>\<open>ValueError\<close> (the result is the
  exception, nothing swallows it); with a registered name the field is resolved without
  error and the result is the registered predicate applied to the resolved value and the
  given value.
\<close>

theorem evaluate_condition_operator_lookup:
  "(operators eng name = None \<longrightarrow>
      evaluate_condition py eng entry (JStr f) (JStr name) val =
        Inl (ValueError (''Unknown operator: '' @ name)))
   \<and> (\<forall>func. operators eng name = Some func \<longrightarrow>
         get_field_value entry (JStr f) = Inr (walk (JDict (e_raw_data entry)) (split_dot f))
         \<and> evaluate_condition py eng entry (JStr f) (JStr name) val =
             func (walk (JDict (e_raw_data entry)) (split_dot f)) val)"
  by (simp add: evaluate_condition_str get_field_value_str)

theorem evaluate_condition_operator_lookup_witness:
  "operators (RuleEngine_init test_builtins) ''~='' = None
   \<and> evaluate_condition test_builtins (RuleEngine_init test_builtins)
        (log_entry ''R1'' [(''battery_level'', JInt 45)] 0)
        (JStr ''battery_level'') (JStr ''~='') (JInt 40)
       = Inl (ValueError ''Unknown operator: ~='')
   \<and> operators (RuleEngine_init test_builtins) ''=='' = Some (\<lambda>a b. Inr (py_eq a b))
   \<and> evaluate_condition test_builtins (RuleEngine_init test_builtins)
        (log_entry ''R1'' [(''battery_level'', JInt 45)] 0)
        (JStr ''battery_level'') (JStr ''=='') (JInt 45)
       = Inr True"
proof -
  let ?eng = "RuleEngine_init test_builtins"
  let ?e = "log_entry ''R1'' [(''battery_level'', JInt 45)] 0"
  have n: "operators ?eng ''~='' = None"
    by (simp add: RuleEngine_init_def default_operators_def)
  have s: "operators ?eng ''=='' = Some (\<lambda>a b. Inr (py_eq a b))"
    by (simp add: RuleEngine_init_def default_operators_def)
  have w: "walk (JDict (e_raw_data ?e)) (split_dot ''battery_level'') = JInt 45"
    by (simp add: log_entry_def split_eval dict_get_def)
  from evaluate_condition_operator_lookup
         [of ?eng "''~=''" test_builtins ?e "''battery_level''" "JInt 40"] n
  have a: "evaluate_condition test_builtins ?eng ?e (JStr ''battery_level'') (JStr ''~='') (JInt 40)
             = Inl (ValueError ''Unknown operator: ~='')"
    by simp
  from evaluate_condition_operator_lookup
         [of ?eng "''==''" test_builtins ?e "''battery_level''" "JInt 45"] s w
  have b: "evaluate_condition test_builtins ?eng ?e (JStr ''battery_level'') (JStr ''=='') (JInt 45)
             = Inr True"
    by simp
  from n a s b show ?thesis by blast
qed

lemma evaluate_rule_conditional:
  "r_type rule = ''conditional'' \<Longrightarrow>
   evaluate_rule py eng rule entry =
     (case evaluate_conditional_rule py eng rule entry of Inl e \<Rightarrow> None | Inr r \<Rightarrow> r)"
  by (simp add: evaluate_rule_def evaluate_rule_body_def)

lemma evaluate_rule_simple:
  "r_type rule \<noteq> ''conditional'' \<Longrightarrow>
   evaluate_rule py eng rule entry =
     (case evaluate_simple_rule py eng rule entry of Inl e \<Rightarrow> None | Inr r \<Rightarrow> r)"
  by (simp add: evaluate_rule_def evaluate_rule_body_def)

lemma conditional_cond_raises:
  "r_condition rule = Some cond \<Longrightarrow> r_then rule = Some thn \<Longrightarrow>
   clause_args cond = Inr (cf, cop, cv) \<Longrightarrow>
   evaluate_condition py eng entry cf cop cv = Inl e \<Longrightarrow>
   (case evaluate_conditional_rule py eng rule entry of Inl e \<Rightarrow> None | Inr r \<Rightarrow> r) = None"
  by (simp add: evaluate_conditional_rule_def)

lemma conditional_cond_false:
  "r_condition rule = Some cond \<Longrightarrow> r_then rule = Some thn \<Longrightarrow>
   clause_args cond = Inr (cf, cop, cv) \<Longrightarrow>
   evaluate_condition py eng entry cf cop cv = Inr False \<Longrightarrow>
   (case evaluate_conditional_rule py eng rule entry of Inl e \<Rightarrow> None | Inr r \<Rightarrow> r) = None"
  by (simp add: evaluate_conditional_rule_def)

lemma conditional_cond_args_raise:
  "r_condition rule = Some cond \<Longrightarrow> r_then rule = Some thn \<Longrightarrow>
   clause_args cond = Inl e \<Longrightarrow>
   (case evaluate_conditional_rule py eng rule entry of Inl e \<Rightarrow> None | Inr r \<Rightarrow> r) = None"
  by (simp add: evaluate_conditional_rule_def)

lemma conditional_then_raises:
  "r_condition rule = Some cond \<Longrightarrow> r_then rule = Some thn \<Longrightarrow>
   clause_args cond = Inr (cf, cop, cv) \<Longrightarrow>
   evaluate_condition py eng entry cf cop cv = Inr True \<Longrightarrow>
   clause_args thn = Inl e
   \<or> (clause_args thn = Inr (tf, tp, tv) \<and> evaluate_condition py eng entry tf tp tv = Inl e) \<Longrightarrow>
   (case evaluate_conditional_rule py eng rule entry of Inl e \<Rightarrow> None | Inr r \<Rightarrow> r) = None"
  by (auto simp: evaluate_conditional_rule_def)

text \<open>
  Claim C6. A conditional rule with both clauses present, on an entry where the predicate
  of the condition clause evaluates to false, produces no violation; the then clause plays
  no part.
\<close>

theorem conditional_rule_condition_false:
  assumes "r_type rule = ''conditional''"
    and "r_condition rule = Some cond" and "r_then rule = Some thn"
    and "clause_args cond = Inr (cf, cop, cv)"
    and "evaluate_condition py eng entry cf cop cv = Inr False"
  shows "evaluate_rule py eng rule entry = None"
  using assms by (simp add: evaluate_rule_conditional conditional_cond_false)

text \<open>
  Claim C4. \<open>evaluate_rule\<close> returns a violation or nothing, never an exception:
  whenever its body raises, the result is no violation. This holds for a failing
  condition of a simple rule, for a failing subscript or a failing evaluation in either
  clause of a conditional rule, and in particular for an operator name missing from the
  registry in the condition clause or in the then clause.
\<close>

theorem evaluate_rule_swallows_exceptions:
  "(\<forall>e. evaluate_rule_body py eng rule entry = Inl e \<longrightarrow> evaluate_rule py eng rule entry = None)
   \<and> (\<forall>e. r_type rule \<noteq> ''conditional''
           \<and> evaluate_condition py eng entry (JStr (r_field rule)) (JStr (r_operator rule))
                (r_threshold rule) = Inl e
         \<longrightarrow> evaluate_rule py eng rule entry = None)
   \<and> (\<forall>cond thn e. r_type rule = ''conditional''
           \<and> r_condition rule = Some cond \<and> r_then rule = Some thn
           \<and> clause_args cond = Inl e
         \<longrightarrow> evaluate_rule py eng rule entry = None)
   \<and> (\<forall>cond thn cf cop cv e. r_type rule = ''conditional''
           \<and> r_condition rule = Some cond \<and> r_then rule = Some thn
           \<and> clause_args cond = Inr (cf, cop, cv)
           \<and> evaluate_condition py eng entry cf cop cv = Inl e
         \<longrightarrow> evaluate_rule py eng rule entry = None)
   \<and> (\<forall>cond thn cf cop cv tf tp tv e. r_type rule = ''conditional''
           \<and> r_condition rule = Some cond \<and> r_then rule = Some thn
           \<and> clause_args cond = Inr (cf, cop, cv)
           \<and> evaluate_condition py eng entry cf cop cv = Inr True
           \<and> (clause_args thn = Inl e
                \<or> clause_args thn = Inr (tf, tp, tv)
                   \<and> evaluate_condition py eng entry tf tp tv = Inl e)
         \<longrightarrow> evaluate_rule py eng rule entry = None)
   \<and> (\<forall>cond thn f name v. r_type rule = ''conditional''
           \<and> r_condition rule = Some cond \<and> r_then rule = Some thn
           \<and> clause_args cond = Inr (JStr f, JStr name, v)
           \<and> operators eng name = None
         \<longrightarrow> evaluate_rule py eng rule entry = None)
   \<and> (\<forall>cond thn cf cop cv f name v. r_type rule = ''conditional''
           \<and> r_condition rule = Some cond \<and> r_then rule = Some thn
           \<and> clause_args cond = Inr (cf, cop, cv)
           \<and> evaluate_condition py eng entry cf cop cv = Inr True
           \<and> clause_args thn = Inr (JStr f, JStr name, v)
           \<and> operators eng name = None
         \<longrightarrow> evaluate_rule py eng rule entry = None)"
proof (intro conjI allI impI)
  show "evaluate_rule py eng rule entry = None"
    if "evaluate_rule_body py eng rule entry = Inl e" for e
    using that by (simp add: evaluate_rule_def)
  show "evaluate_rule py eng rule entry = None"
    if "r_type rule \<noteq> ''conditional''
        \<and> evaluate_condition py eng entry (JStr (r_field rule)) (JStr (r_operator rule))
             (r_threshold rule) = Inl e" for e
    using that by (simp add: evaluate_rule_simple evaluate_simple_rule_def)
  show "evaluate_rule py eng rule entry = None"
    if "r_type rule = ''conditional''
        \<and> r_condition rule = Some cond \<and> r_then rule = Some thn
        \<and> clause_args cond = Inl e" for cond thn e
    using that by (simp add: evaluate_rule_conditional conditional_cond_args_raise)
  show "evaluate_rule py eng rule entry = None"
    if "r_type rule = ''conditional''
        \<and> r_condition rule = Some cond \<and> r_then rule = Some thn
        \<and> clause_args cond = Inr (cf, cop, cv)
        \<and> evaluate_condition py eng entry cf cop cv = Inl e" for cond thn cf cop cv e
    using that by (simp add: evaluate_rule_conditional conditional_cond_raises)
  show "evaluate_rule py eng rule entry = None"
    if "r_type rule = ''conditional''
        \<and> r_condition rule = Some cond \<and> r_then rule = Some thn
        \<and> clause_args cond = Inr (cf, cop, cv)
        \<and> evaluate_condition py eng entry cf cop cv = Inr True
        \<and> (clause_args thn = Inl e
             \<or> clause_args thn = Inr (tf, tp, tv)
                \<and> evaluate_condition py eng entry tf tp tv = Inl e)"
    for cond thn cf cop cv tf tp tv e
    using that conditional_then_raises [of rule cond thn cf cop cv py eng entry e tf tp tv]
    by (simp add: evaluate_rule_conditional)
  show "evaluate_rule py eng rule entry = None"
    if "r_type rule = ''conditional''
        \<and> r_condition rule = Some cond \<and> r_then rule = Some thn
        \<and> clause_args cond = Inr (JStr f, JStr name, v)
        \<and> operators eng name = None" for cond thn f name v
    using that
    by (simp add: evaluate_rule_conditional evaluate_condition_str
        conditional_cond_raises [where e = "ValueError (''Unknown operator: '' @ name)"])
  show "evaluate_rule py eng rule entry = None"
    if "r_type rule = ''conditional''
        \<and> r_condition rule = Some cond \<and> r_then rule = Some thn
        \<and> clause_args cond = Inr (cf, cop, cv)
        \<and> evaluate_condition py eng entry cf cop cv = Inr True
        \<and> clause_args thn = Inr (JStr f, JStr name, v)
        \<and> operators eng name = None" for cond thn cf cop cv f name v
    using that
      conditional_then_raises [of rule cond thn cf cop cv py eng entry
        "ValueError (''Unknown operator: '' @ name)" "JStr f" "JStr name" v]
    by (simp add: evaluate_rule_conditional evaluate_condition_str)
qed

lemmas fixture_defs = test_builtins_def battery_min_def low_battery_idle_def log_entry_def
  typo_in_condition_def typo_in_then_def moving_at_def

lemmas engine_eval = evaluate_condition_str split_eval dict_get_def RuleEngine_init_def
  default_operators_def compare_with_def rat_cmp_def clause_args_def getitem_def
  py_in_list_def

theorem conditional_rule_condition_false_witness:
  "r_type low_battery_idle = ''conditional''
   \<and> r_condition low_battery_idle =
        Some [(''field'', JStr ''battery_level''), (''operator'', JStr ''<''),
              (''value'', JInt 10)]
   \<and> r_then low_battery_idle =
        Some [(''field'', JStr ''movement_state''), (''operator'', JStr ''in''),
              (''value'', JList [JStr ''idle'', JStr ''stopped''])]
   \<and> clause_args [(''field'', JStr ''battery_level''), (''operator'', JStr ''<''),
                   (''value'', JInt 10)]
       = Inr (JStr ''battery_level'', JStr ''<'', JInt 10)
   \<and> evaluate_condition test_builtins (RuleEngine_init test_builtins) (moving_at 50)
        (JStr ''battery_level'') (JStr ''<'') (JInt 10) = Inr False
   \<and> evaluate_condition test_builtins (RuleEngine_init test_builtins) (moving_at 50)
        (JStr ''movement_state'') (JStr ''in'') (JList [JStr ''idle'', JStr ''stopped''])
       = Inr False
   \<and> evaluate_rule test_builtins (RuleEngine_init test_builtins) low_battery_idle (moving_at 50)
       = None"
proof -
  let ?eng = "RuleEngine_init test_builtins"
  have t: "r_type low_battery_idle = ''conditional''"
    by (simp add: low_battery_idle_def)
  have c: "r_condition low_battery_idle =
        Some [(''field'', JStr ''battery_level''), (''operator'', JStr ''<''),
              (''value'', JInt 10)]"
    by (simp add: low_battery_idle_def)
  have th: "r_then low_battery_idle =
        Some [(''field'', JStr ''movement_state''), (''operator'', JStr ''in''),
              (''value'', JList [JStr ''idle'', JStr ''stopped''])]"
    by (simp add: low_battery_idle_def)
  have a: "clause_args [(''field'', JStr ''battery_level''), (''operator'', JStr ''<''),
                   (''value'', JInt 10)]
       = Inr (JStr ''battery_level'', JStr ''<'', JInt 10)"
    by (simp add: clause_args_def getitem_def)
  have f: "evaluate_condition test_builtins ?eng (moving_at 50)
        (JStr ''battery_level'') (JStr ''<'') (JInt 10) = Inr False"
    by (simp add: engine_eval moving_at_def log_entry_def)
  have g: "evaluate_condition test_builtins ?eng (moving_at 50)
        (JStr ''movement_state'') (JStr ''in'') (JList [JStr ''idle'', JStr ''stopped''])
       = Inr False"
    by (simp add: engine_eval moving_at_def log_entry_def)
  from conditional_rule_condition_false [OF t c th a f] t c th a f g show ?thesis
    by blast
qed

theorem evaluate_rule_swallows_exceptions_witness:
  "r_type typo_in_condition = ''conditional''
   \<and> r_condition typo_in_condition =
        Some [(''field'', JStr ''battery_level''), (''operator'', JStr ''<<''),
              (''value'', JInt 10)]
   \<and> clause_args [(''field'', JStr ''battery_level''), (''operator'', JStr ''<<''),
                   (''value'', JInt 10)]
       = Inr (JStr ''battery_level'', JStr ''<<'', JInt 10)
   \<and> operators (RuleEngine_init test_builtins) ''<<'' = None
   \<and> evaluate_rule_body test_builtins (RuleEngine_init test_builtins) typo_in_condition
        (moving_at 5) = Inl (ValueError ''Unknown operator: <<'')
   \<and> evaluate_rule test_builtins (RuleEngine_init test_builtins) typo_in_condition
        (moving_at 5) = None
   \<and> r_type typo_in_then = ''conditional''
   \<and> evaluate_condition test_builtins (RuleEngine_init test_builtins) (moving_at 5)
        (JStr ''battery_level'') (JStr ''<'') (JInt 10) = Inr True
   \<and> operators (RuleEngine_init test_builtins) ''inn'' = None
   \<and> evaluate_rule test_builtins (RuleEngine_init test_builtins) typo_in_then
        (moving_at 5) = None"
proof -
  let ?eng = "RuleEngine_init test_builtins"
  let ?cond = "[(''field'', JStr ''battery_level''), (''operator'', JStr ''<<''),
              (''value'', JInt 10)]"
  let ?thn = "[(''field'', JStr ''movement_state''), (''operator'', JStr ''in''),
              (''value'', JList [JStr ''idle'', JStr ''stopped''])]"
  let ?cond' = "[(''field'', JStr ''battery_level''), (''operator'', JStr ''<''),
              (''value'', JInt 10)]"
  let ?thn' = "[(''field'', JStr ''movement_state''), (''operator'', JStr ''inn''),
              (''value'', JList [JStr ''idle'', JStr ''stopped''])]"
  have t: "r_type typo_in_condition = ''conditional''"
    by (simp add: typo_in_condition_def low_battery_idle_def)
  have c: "r_condition typo_in_condition = Some ?cond"
    by (simp add: typo_in_condition_def)
  have th: "r_then typo_in_condition = Some ?thn"
    by (simp add: typo_in_condition_def low_battery_idle_def)
  have a: "clause_args ?cond = Inr (JStr ''battery_level'', JStr ''<<'', JInt 10)"
    by (simp add: clause_args_def getitem_def)
  have n: "operators ?eng ''<<'' = None"
    by (simp add: RuleEngine_init_def default_operators_def)
  have b: "evaluate_rule_body test_builtins ?eng typo_in_condition (moving_at 5)
             = Inl (ValueError ''Unknown operator: <<'')"
    by (simp add: evaluate_rule_body_def evaluate_conditional_rule_def t c th a
        evaluate_condition_str n)
  have t': "r_type typo_in_then = ''conditional''"
    by (simp add: typo_in_then_def low_battery_idle_def)
  have c': "r_condition typo_in_then = Some ?cond'"
    by (simp add: typo_in_then_def low_battery_idle_def)
  have th': "r_then typo_in_then = Some ?thn'"
    by (simp add: typo_in_then_def)
  have a': "clause_args ?cond' = Inr (JStr ''battery_level'', JStr ''<'', JInt 10)"
    by (simp add: clause_args_def getitem_def)
  have m: "evaluate_condition test_builtins ?eng (moving_at 5)
        (JStr ''battery_level'') (JStr ''<'') (JInt 10) = Inr True"
    by (simp add: engine_eval moving_at_def log_entry_def)
  have at: "clause_args ?thn' =
      Inr (JStr ''movement_state'', JStr ''inn'', JList [JStr ''idle'', JStr ''stopped''])"
    by (simp add: clause_args_def getitem_def)
  have n': "operators ?eng ''inn'' = None"
    by (simp add: RuleEngine_init_def default_operators_def)
  note sw = evaluate_rule_swallows_exceptions [of test_builtins ?eng _ "moving_at 5"]
  have r1: "evaluate_rule test_builtins ?eng typo_in_condition (moving_at 5) = None"
    using sw [of typo_in_condition, THEN conjunct1, rule_format, OF b] .
  have r2: "evaluate_rule test_builtins ?eng typo_in_then (moving_at 5) = None"
    using sw [of typo_in_then, THEN conjunct2, THEN conjunct2, THEN conjunct2,
        THEN conjunct2, THEN conjunct2, THEN conjunct2, rule_format,
        of ?cond' ?thn' "JStr ''battery_level''" "JStr ''<''" "JInt 10"
           "''movement_state''" "''inn''" "JList [JStr ''idle'', JStr ''stopped'']"]
      t' c' th' a' m at n'
    by simp
  from t c a n b r1 t' m n' r2 show ?thesis by simp
qed

text \<open>
  Claim C10. A rule whose type is any string other than \<^verbatim>\<open>conditional\<close> is evaluated
  as a simple comparison: the result depends on its field, operator and threshold only
  (not on its condition and then clauses), there is no violation when the operator is
  unknown, raises or holds, and the violation of the simple rule otherwise. No rule kind
  is rejected.
\<close>

theorem non_conditional_rule_is_simple:
  assumes "r_type rule \<noteq> ''conditional''"
  shows "evaluate_rule py eng rule entry =
     (case operators eng (r_operator rule) of
        None \<Rightarrow> None
      | Some func \<Rightarrow>
          (case func (walk (JDict (e_raw_data entry)) (split_dot (r_field rule)))
                  (r_threshold rule) of
             Inl e \<Rightarrow> None
           | Inr ok \<Rightarrow>
               if ok then None
               else Some \<lparr>v_rule_id = r_id rule, v_rule_name = r_name rule,
                          v_severity = r_severity rule, v_message = r_message rule,
                          v_timestamp = e_timestamp entry, v_robot_id = e_robot_id entry,
                          v_field = r_field rule,
                          v_actual_value =
                            walk (JDict (e_raw_data entry)) (split_dot (r_field rule)),
                          v_expected = r_operator rule @ '' '' @ py_str py (r_threshold rule),
                          v_log_index = e_index entry\<rparr>))
   \<and> evaluate_rule py eng (rule\<lparr>r_condition := c, r_then := t\<rparr>) entry
       = evaluate_rule py eng rule entry"
  using assms
  by (simp add: evaluate_rule_simple evaluate_simple_rule_def evaluate_condition_str
      get_field_value_str split: option.splits sum.splits)

theorem non_conditional_rule_is_simple_witness:
  "r_type (battery_min\<lparr>r_type := ''threshold''\<rparr>) \<noteq> ''conditional''
   \<and> evaluate_rule test_builtins (RuleEngine_init test_builtins)
        (battery_min\<lparr>r_type := ''threshold''\<rparr>) (moving_at 15)
       = Some \<lparr>v_rule_id = ''battery_min'', v_rule_name = ''Battery Minimum'',
               v_severity = WARNING, v_message = ''Battery below 20%'',
               v_timestamp = ''2024-01-15T08:00:00Z'', v_robot_id = ''ROBOT_001'',
               v_field = ''battery_level'', v_actual_value = JInt 15,
               v_expected = ''>= 20'', v_log_index = 0\<rparr>"
proof -
  let ?r = "battery_min\<lparr>r_type := ''threshold''\<rparr>"
  have t: "r_type ?r \<noteq> ''conditional''"
    by simp
  from non_conditional_rule_is_simple [OF t, of test_builtins "RuleEngine_init test_builtins"
      "moving_at 15"]
  have "evaluate_rule test_builtins (RuleEngine_init test_builtins) ?r (moving_at 15)
       = Some \<lparr>v_rule_id = ''battery_min'', v_rule_name = ''Battery Minimum'',
               v_severity = WARNING, v_message = ''Battery below 20%'',
               v_timestamp = ''2024-01-15T08:00:00Z'', v_robot_id = ''ROBOT_001'',
               v_field = ''battery_level'', v_actual_value = JInt 15,
               v_expected = ''>= 20'', v_log_index = 0\<rparr>"
    by (simp add: battery_min_def moving_at_def log_entry_def split_eval dict_get_def
        RuleEngine_init_def default_operators_def compare_with_def rat_cmp_def
        test_builtins_def int_str_def dec_str.simps [of 20] dec_str.simps [of 2])
  with t show ?thesis by simp
qed

section \<open>Properties of float rounding\<close>

lemma bitlen_powi_bounds:
  assumes "0 < a"
  shows "(2::rat) powi (bitlen a - 1) \<le> of_int a" "of_int a < (2::rat) powi (bitlen a)"
proof -
  from bitlen_bounds [OF assms]
  have l: "2 ^ nat (bitlen a - 1) \<le> a" and u: "a < 2 ^ nat (bitlen a)"
    by simp_all
  have p: "1 \<le> bitlen a"
    using assms by (auto simp: bitlen_alt_def)
  have "(2::rat) powi (bitlen a - 1) = 2 ^ nat (bitlen a - 1)"
    using p by (simp add: power_int_def)
  also have "\<dots> = of_int (2 ^ nat (bitlen a - 1))"
    by simp
  also have "\<dots> \<le> of_int a"
    using l by (simp only: of_int_le_iff)
  finally show "(2::rat) powi (bitlen a - 1) \<le> of_int a" .
  have "(of_int a :: rat) < of_int (2 ^ nat (bitlen a))"
    using u by (simp only: of_int_less_iff)
  also have "\<dots> = 2 powi (bitlen a)"
    using p by (simp add: power_int_def)
  finally show "of_int a < (2::rat) powi (bitlen a)" .
qed

lemma ilog2_bounds:
  assumes "0 < x"
  shows "2 powi (ilog2 x) \<le> x \<and> x < 2 powi (ilog2 x + 1)"
proof -
  obtain a b where q: "quotient_of x = (a, b)"
    by (cases "quotient_of x")
  have b: "0 < b"
    using q by (rule quotient_of_denom_pos)
  have x: "x = of_int a / of_int b"
    using q by (rule quotient_of_div)
  have a: "0 < a"
    using assms b by (simp add: x zero_less_divide_iff)
  let ?d = "bitlen a - bitlen b"
  have bp: "(0::rat) < of_int b"
    using b by simp
  have up: "x < 2 powi (?d + 1)"
  proof -
    have "x < 2 powi (bitlen a) / of_int b"
      unfolding x using bitlen_powi_bounds(2) [OF a] bp
      by (simp add: divide_strict_right_mono)
    also have "\<dots> \<le> 2 powi (bitlen a) / 2 powi (bitlen b - 1)"
      using bitlen_powi_bounds(1) [OF b] bp
      by (intro divide_left_mono mult_pos_pos) simp_all
    also have "\<dots> = 2 powi (bitlen a - (bitlen b - 1))"
      by (rule power_int_diff [symmetric]) simp
    also have "bitlen a - (bitlen b - 1) = ?d + 1"
      by simp
    finally show ?thesis .
  qed
  have lo: "2 powi (?d - 1) \<le> x"
  proof -
    have "?d - 1 = bitlen a - 1 - bitlen b"
      by simp
    then have "(2::rat) powi (?d - 1) = 2 powi (bitlen a - 1 - bitlen b)"
      by (rule arg_cong)
    also have "\<dots> = 2 powi (bitlen a - 1) / 2 powi (bitlen b)"
      by (rule power_int_diff) simp
    also have "\<dots> \<le> 2 powi (bitlen a - 1) / of_int b"
      using bitlen_powi_bounds(2) [OF b] bp
      by (intro divide_left_mono mult_pos_pos) simp_all
    also have "\<dots> \<le> x"
      unfolding x using bitlen_powi_bounds(1) [OF a] bp
      by (simp add: divide_right_mono)
    finally show ?thesis .
  qed
  show ?thesis
  proof (cases "x < 2 powi ?d")
    case True
    then have "ilog2 x = ?d - 1"
      by (simp add: ilog2_def q)
    with True lo show ?thesis by simp
  next
    case False
    then have "ilog2 x = ?d"
      by (simp add: ilog2_def q)
    with False up show ?thesis by simp
  qed
qed

lemma round_half_even_error: "\<bar>of_int (round_half_even y) - y\<bar> \<le> 1 / 2"
proof -
  have "of_int \<lfloor>y\<rfloor> \<le> y" "y < of_int \<lfloor>y\<rfloor> + 1"
    by linarith+
  then show ?thesis
    by (auto simp: round_half_even_def Let_def abs_le_iff)
qed

lemma round_to_double_zero: "round_to_double 0 = 0"
  by (simp add: round_to_double_def)

text \<open>In the range of the normal doubles, rounding changes a value by at most one part in \<open>2 ^ 53\<close>.\<close>

lemma round_to_double_error:
  assumes "2 powi (- 1022) \<le> \<bar>x\<bar>"
  shows "\<bar>round_to_double x - x\<bar> \<le> \<bar>x\<bar> * 2 powi (- 53)"
proof -
  have pos: "0 < \<bar>x\<bar>"
    using assms zero_less_power_int [of "2::rat" "- 1022"] by linarith
  then have nz: "x \<noteq> 0" by simp
  let ?e = "ilog2 \<bar>x\<bar>"
  note b = ilog2_bounds [OF pos]
  have e: "- 1022 \<le> ?e"
  proof (rule ccontr)
    assume "\<not> - 1022 \<le> ?e"
    then have "?e + 1 \<le> - 1022" by simp
    then have "(2::rat) powi (?e + 1) \<le> 2 powi (- 1022)"
      by (intro power_int_increasing) simp_all
    with b assms show False by linarith
  qed
  let ?q = "?e - 52"
  have q: "max (?e - 52) (- 1074) = ?q"
    using e by simp
  have qp: "(0::rat) < 2 powi ?q"
    by simp
  let ?m = "round_half_even (x / 2 powi ?q)"
  have rd: "round_to_double x = of_int ?m * 2 powi ?q"
    using nz by (simp add: round_to_double_def Let_def q del: power_int_numeral_neg_numeral)
  have "round_to_double x - x = (of_int ?m - x / 2 powi ?q) * 2 powi ?q"
    using qp by (simp add: rd field_simps del: power_int_numeral_neg_numeral)
  then have "\<bar>round_to_double x - x\<bar> = \<bar>of_int ?m - x / 2 powi ?q\<bar> * 2 powi ?q"
    using qp by (simp add: abs_mult del: power_int_numeral_neg_numeral)
  also have "\<dots> \<le> (1 / 2) * 2 powi ?q"
    using round_half_even_error [of "x / 2 powi ?q"] qp
    by (intro mult_right_mono) simp_all
  also have "\<dots> = 2 powi ?e * 2 powi (- 53)"
  proof -
    have "?q = ?e + (- 53) + 1" by simp
    then have "(2::rat) powi ?q = 2 powi (?e + (- 53) + 1)"
      by (rule arg_cong)
    also have "\<dots> = 2 powi (?e + (- 53)) * 2"
      by (rule power_int_add_1) simp
    also have "(2::rat) powi (?e + (- 53)) = 2 powi ?e * 2 powi (- 53)"
      by (rule power_int_add) simp
    finally show ?thesis
      by (simp del: power_int_numeral_neg_numeral)
  qed
  also have "\<dots> \<le> \<bar>x\<bar> * 2 powi (- 53)"
    using b by (intro mult_right_mono) simp_all
  finally show ?thesis .
qed

text \<open>The two roundings of \<^verbatim>\<open>(p / t) * 100\<close> together.\<close>

lemma percent_error:
  assumes "0 \<le> p" "p \<le> t" "0 < t" "t \<le> 2 ^ 1022"
  shows "\<bar>float_mul (int_truediv p t) 100 - 100 * of_int p / of_int t\<bar>
           \<le> (100 * of_int p / of_int t) * (1 / 2 ^ 52 + 1 / 2 ^ 106)"
proof (cases "p = 0")
  case True
  then show ?thesis
    by (simp add: float_mul_def int_truediv_def round_to_double_zero)
next
  case False
  with assms have p: "1 \<le> p" by simp
  define u :: rat where "u = 2 powi (- 53)"
  define x :: rat where "x = of_int p / of_int t"
  define y where "y = int_truediv p t"
  define z where "z = float_mul y 100"
  define m :: rat where "m = 2 powi (- 1022)"
  have tp: "(0::rat) < of_int t" using assms by simp
  have xpos: "0 < x" using p tp by (simp add: x_def)
  have "m = 1 / 2 ^ 1022"
    unfolding m_def by (simp only: power_int_minus power_int_numeral inverse_eq_divide)
  also have "\<dots> \<le> 1 / of_int t"
  proof -
    have "(of_int t :: rat) \<le> of_int (2 ^ 1022)"
      using assms(4) by (simp only: of_int_le_iff)
    also have "(of_int (2 ^ 1022) :: rat) = 2 ^ 1022"
      by (simp only: of_int_power of_int_numeral)
    finally show ?thesis using tp by (intro divide_left_mono mult_pos_pos) simp_all
  qed
  also have "\<dots> \<le> x"
    unfolding x_def using p tp by (intro divide_right_mono) simp_all
  finally have xlow: "m \<le> x" .
  have ax: "\<bar>x\<bar> = x" using xpos by (rule abs_of_pos)
  have "2 powi (- 1022) \<le> \<bar>of_int p / of_int t :: rat\<bar>"
    using xlow by (simp only: ax m_def x_def [symmetric])
  from round_to_double_error [OF this]
  have "\<bar>round_to_double x - x\<bar> \<le> x * u"
    by (simp only: x_def [symmetric] ax u_def [symmetric])
  moreover have "y = round_to_double x"
    by (simp only: y_def int_truediv_def x_def)
  ultimately have e1: "\<bar>y - x\<bar> \<le> x * u"
    by simp
  have u: "u = 1 / 2 ^ 53"
    unfolding u_def by (simp only: power_int_minus power_int_numeral inverse_eq_divide)
  have usmall: "u \<le> 1 / 2" "0 \<le> u"
    unfolding u by simp_all
  have ylow: "x - x * u \<le> y" and yup: "y \<le> x + x * u"
    using e1 by (simp_all add: abs_le_iff)
  have "x * u \<le> x * (1 / 2)"
    using xpos usmall by (intro mult_left_mono) simp_all
  then have xu: "x * u \<le> x / 2" by simp
  have ypos: "0 < y" using ylow xu xpos by linarith
  have ylow100: "m \<le> y * 100" using ylow xu xpos xlow by linarith
  have "0 < y * 100" using ypos by simp
  then have ay: "\<bar>y * 100\<bar> = y * 100" by (rule abs_of_pos)
  have "2 powi (- 1022) \<le> \<bar>y * 100\<bar>"
    using ylow100 by (simp only: ay m_def)
  from round_to_double_error [OF this]
  have "\<bar>round_to_double (y * 100) - y * 100\<bar> \<le> y * 100 * u"
    by (simp only: ay u_def [symmetric])
  moreover have "z = round_to_double (y * 100)"
    by (simp only: z_def float_mul_def)
  ultimately have e2: "\<bar>z - y * 100\<bar> \<le> y * 100 * u"
    by simp
  have "y * u \<le> (x + x * u) * u"
    using yup usmall by (intro mult_right_mono)
  then have yu: "y * 100 * u \<le> 100 * (x * u) + 100 * (x * (u * u))"
    by (simp add: algebra_simps)
  have "z - 100 * x = (z - y * 100) + 100 * (y - x)"
    by (simp add: algebra_simps)
  then have "\<bar>z - 100 * x\<bar> = \<bar>(z - y * 100) + 100 * (y - x)\<bar>"
    by (rule arg_cong)
  also have "\<dots> \<le> \<bar>z - y * 100\<bar> + \<bar>100 * (y - x)\<bar>"
    by (rule abs_triangle_ineq)
  also have "\<bar>100 * (y - x)\<bar> = \<bar>100\<bar> * \<bar>y - x\<bar>"
    by (rule abs_mult)
  also have "\<bar>100 :: rat\<bar> = 100"
    by simp
  finally have "\<bar>z - 100 * x\<bar> \<le> \<bar>z - y * 100\<bar> + 100 * \<bar>y - x\<bar>" .
  also have "\<dots> \<le> y * 100 * u + 100 * (x * u)"
    by (intro add_mono mult_left_mono e1 e2) simp
  also have "\<dots> \<le> (100 * (x * u) + 100 * (x * (u * u))) + 100 * (x * u)"
    by (intro add_mono yu order_refl)
  also have "\<dots> = (100 * x) * (2 * u + u * u)"
    by (simp add: algebra_simps)
  also have "2 * u + u * u = 1 / 2 ^ 52 + 1 / 2 ^ 106"
    unfolding u by simp
  finally have "\<bar>z - 100 * x\<bar> \<le> (100 * x) * (1 / 2 ^ 52 + 1 / 2 ^ 106)" .
  then show ?thesis
    by (simp only: z_def y_def x_def times_divide_eq_right)
qed

lemma percent_7_of_25: "float_mul (int_truediv 7 25) 100 = 7881299347898369 / 2 ^ 48"
  by code_simp

lemma percent_1_of_3: "float_mul (int_truediv 1 3) 100 = 2345624805922133 / 2 ^ 46"
  by code_simp

lemma percent_1_of_4: "float_mul (int_truediv 1 4) 100 = 25"
  by code_simp

lemma nearest_double_100_thirds: "round_to_double (100 / 3) = 4691249611844267 / 2 ^ 47"
  by code_simp

text \<open>Rounding at a known exponent, ties, and a result in the subnormal range.\<close>

lemma ilog2_unique:
  assumes "0 < x" "2 powi e \<le> x" "x < 2 powi (e + 1)"
  shows "ilog2 x = e"
proof (rule ccontr)
  assume n: "ilog2 x \<noteq> e"
  note b = ilog2_bounds [OF assms(1)]
  show False
  proof (cases "ilog2 x < e")
    case True
    then have "(2::rat) powi (ilog2 x + 1) \<le> 2 powi e"
      by (intro power_int_increasing) simp_all
    with b assms(2) show False by simp
  next
    case False
    with n have "e + 1 \<le> ilog2 x" by simp
    then have "(2::rat) powi (e + 1) \<le> 2 powi (ilog2 x)"
      by (intro power_int_increasing) simp_all
    with b assms(3) show False by simp
  qed
qed

lemma round_to_double_at:
  assumes "0 < x" "2 powi e \<le> x" "x < 2 powi (e + 1)" "q = max (e - 52) (- 1074)"
  shows "round_to_double x = of_int (round_half_even (x / 2 powi q)) * 2 powi q"
proof -
  have "ilog2 \<bar>x\<bar> = e"
    using assms(1-3) by (intro ilog2_unique) simp_all
  then show ?thesis
    using assms(1,4) by (simp add: round_to_double_def Let_def del: power_int_numeral_neg_numeral)
qed

lemma round_half_even_int: "round_half_even (of_int n) = n"
  by (simp add: round_half_even_def)

lemma round_half_even_3_2: "round_half_even (3 / 2) = 2"
  by code_simp

lemma truediv_subnormal: "int_truediv 3 (2 ^ 1075) = 1 / 2 ^ 1073"
proof -
  have x: "(of_int 3 / of_int (2 ^ 1075) :: rat) = 3 / 2 ^ 1075"
    by simp
  have p: "(2::rat) powi (- 1074) = 1 / 2 ^ 1074" "(2::rat) powi (- 1074 + 1) = 1 / 2 ^ 1073"
    by (simp_all add: power_int_minus inverse_eq_divide)
  have d: "(3 / 2 ^ 1075 :: rat) / (1 / 2 ^ 1074) = 3 / 2"
    by simp
  have "round_to_double (3 / 2 ^ 1075) =
      of_int (round_half_even ((3 / 2 ^ 1075) / 2 powi (- 1074))) * 2 powi (- 1074)"
    by (rule round_to_double_at [where e = "- 1074"]) (simp_all add: p)
  also have "\<dots> = of_int 2 * (1 / 2 ^ 1074)"
    by (simp only: p(1) d round_half_even_3_2)
  also have "\<dots> = 1 / 2 ^ 1073"
    by simp
  finally show ?thesis
    by (simp only: int_truediv_def x)
qed

lemma percent_subnormal: "float_mul (int_truediv 3 (2 ^ 1075)) 100 = 25 / 2 ^ 1071"
proof -
  have p: "(2::rat) powi (- 1074) = 1 / 2 ^ 1074" "(2::rat) powi (- 1067) = 1 / 2 ^ 1067"
    "(2::rat) powi (- 1067 + 1) = 1 / 2 ^ 1066"
    by (simp_all add: power_int_minus inverse_eq_divide)
  have d: "(1 / 2 ^ 1073 * 100 :: rat) / (1 / 2 ^ 1074) = of_int 200"
    by simp
  have "round_to_double (1 / 2 ^ 1073 * 100) =
      of_int (round_half_even ((1 / 2 ^ 1073 * 100) / 2 powi (- 1074))) * 2 powi (- 1074)"
    by (rule round_to_double_at [where e = "- 1067"]) (simp_all add: p)
  also have "\<dots> = of_int 200 * (1 / 2 ^ 1074)"
    by (simp only: p(1) d round_half_even_int)
  also have "\<dots> = 25 / 2 ^ 1071"
    by simp
  finally show ?thesis
    by (simp only: float_mul_def truediv_subnormal)
qed

lemma percent_tie_down:
  "float_mul (int_truediv (2 ^ 53 + 1) (2 ^ 54)) 100 = 50"
  by code_simp

lemma percent_tie_up:
  "float_mul (int_truediv (2 ^ 53 + 3) (2 ^ 54)) 100 = 7036874417766403 / 2 ^ 47"
  by code_simp

lemma pass_rate_fields:
  "total_entries v = t \<Longrightarrow> total_passed v = p \<Longrightarrow> t \<noteq> 0 \<Longrightarrow>
   pass_rate v = float_mul (int_truediv p t) 100"
  by (simp add: pass_rate_def)

section \<open>Properties of the validator\<close>

lemma record_violation_fst:
  "fst (record_violation rid (v, h) x) =
     v\<lparr>total_violations := total_violations v + 1,
       violations_by_rule := incr (violations_by_rule v) (v_rule_id x),
       violations_by_severity :=
         incr (violations_by_severity v) (severity_value (v_severity x))\<rparr>"
  by (simp add: record_violation_def Let_def)

lemma record_violation_list_at:
  "list_at (snd (record_violation rid (v, h) x)) a =
     (if a = all_violations v then list_at h a @ [x] else list_at h a)"
  by (simp add: record_violation_def Let_def mutate_summary_def notify_def)

lemma record_violation_dict_at:
  "dict_at (snd (record_violation rid (v, h) x)) a k =
     (if a = robot_summaries v \<and> k = rid
      then map_option (\<lambda>rs. rs\<lparr>rs_violations_count := rs_violations_count rs + 1,
                              rs_status := FAIL,
                              rs_violations := rs_violations rs @ [x]\<rparr>)
             (dict_at h a k)
      else dict_at h a k)"
  by (simp add: record_violation_def Let_def mutate_summary_def notify_def)

lemma record_violation_next_addr:
  "next_addr (snd (record_violation rid (v, h) x)) = next_addr h"
  by (simp add: record_violation_def Let_def mutate_summary_def notify_def)

lemma record_violation_calls:
  "calls (snd (record_violation rid (v, h) x)) =
     calls h @ (if on_violation v then [ViolationCall x] else [])"
  by (simp add: record_violation_def Let_def mutate_summary_def notify_def)

lemma count_violations_Nil: "count_violations [] rs = rs"
  by (simp add: count_violations_def)

lemma count_violations_Cons:
  "count_violations (x # xs) rs =
     count_violations xs (rs\<lparr>rs_violations_count := rs_violations_count rs + 1,
                              rs_status := FAIL,
                              rs_violations := rs_violations rs @ [x]\<rparr>)"
  by (simp add: count_violations_def)

lemma process_violations_frame:
  "robot_summaries (fst (process_violations rid xs s)) = robot_summaries (fst s)
   \<and> all_violations (fst (process_violations rid xs s)) = all_violations (fst s)
   \<and> rule_engine (fst (process_violations rid xs s)) = rule_engine (fst s)
   \<and> on_violation (fst (process_violations rid xs s)) = on_violation (fst s)
   \<and> on_entry (fst (process_violations rid xs s)) = on_entry (fst s)
   \<and> total_entries (fst (process_violations rid xs s)) = total_entries (fst s)
   \<and> total_passed (fst (process_violations rid xs s)) = total_passed (fst s)
   \<and> next_addr (snd (process_violations rid xs s)) = next_addr (snd s)"
proof (induction xs arbitrary: s)
  case Nil
  show ?case by simp
next
  case (Cons x xs)
  obtain v h where s: "s = (v, h)" by (cases s)
  show ?case
    using Cons [of "record_violation rid s x"]
    by (simp add: s record_violation_fst record_violation_next_addr)
qed

lemma process_violations_total:
  "total_violations (fst (process_violations rid xs s)) =
     total_violations (fst s) + int (length xs)"
proof (induction xs arbitrary: s)
  case Nil
  show ?case by simp
next
  case (Cons x xs)
  obtain v h where s: "s = (v, h)" by (cases s)
  show ?case
    using Cons [of "record_violation rid s x"]
    by (simp add: s record_violation_fst)
qed

lemma process_violations_list_at:
  "list_at (snd (process_violations rid xs s)) a =
     (if a = all_violations (fst s) then list_at (snd s) a @ xs else list_at (snd s) a)"
proof (induction xs arbitrary: s)
  case Nil
  show ?case by simp
next
  case (Cons x xs)
  obtain v h where s: "s = (v, h)" by (cases s)
  show ?case
    using Cons [of "record_violation rid s x"]
    by (simp add: s record_violation_fst record_violation_list_at)
qed

lemma process_violations_dict_at:
  "dict_at (snd (process_violations rid xs s)) a k =
     (if a = robot_summaries (fst s) \<and> k = rid
      then map_option (count_violations xs) (dict_at (snd s) a k)
      else dict_at (snd s) a k)"
proof (induction xs arbitrary: s)
  case Nil
  have "map_option (count_violations []) opt = opt" for opt
    by (cases opt) (simp_all add: count_violations_Nil)
  then show ?case by simp
next
  case (Cons x xs)
  obtain v h where s: "s = (v, h)" by (cases s)
  have c: "map_option (count_violations xs)
            (map_option (\<lambda>rs. rs\<lparr>rs_violations_count := rs_violations_count rs + 1,
                              rs_status := FAIL,
                              rs_violations := rs_violations rs @ [x]\<rparr>) opt)
          = map_option (count_violations (x # xs)) opt" for opt
    by (cases opt) (simp_all add: count_violations_Cons)
  show ?case
    using Cons [of "record_violation rid s x"]
    by (simp add: s record_violation_fst record_violation_dict_at c)
qed

lemma process_violations_calls:
  "calls (snd (process_violations rid xs s)) =
     calls (snd s) @ (if on_violation (fst s) then map ViolationCall xs else [])"
proof (induction xs arbitrary: s)
  case Nil
  show ?case by simp
next
  case (Cons x xs)
  obtain v h where s: "s = (v, h)" by (cases s)
  show ?case
    using Cons [of "record_violation rid s x"]
    by (simp add: s record_violation_fst record_violation_calls)
qed

lemma validate_entry_result:
  "fst (validate_entry py v e h) =
     \<lparr>er_log_entry = e,
      er_status = (if engine_validate_entry py (rule_engine v) e = [] then PASS else FAIL),
      er_violations = engine_validate_entry py (rule_engine v) e\<rparr>"
  by (simp add: validate_entry_def Let_def)

lemma validate_entry_frame:
  "robot_summaries (fst (snd (validate_entry py v e h))) = robot_summaries v
   \<and> all_violations (fst (snd (validate_entry py v e h))) = all_violations v
   \<and> rule_engine (fst (snd (validate_entry py v e h))) = rule_engine v
   \<and> on_violation (fst (snd (validate_entry py v e h))) = on_violation v
   \<and> on_entry (fst (snd (validate_entry py v e h))) = on_entry v
   \<and> next_addr (snd (snd (validate_entry py v e h))) = next_addr h"
  by (simp add: validate_entry_def Let_def process_violations_frame mutate_summary_def
      notify_def)

lemma validate_entry_counters:
  "total_entries (fst (snd (validate_entry py v e h))) = total_entries v + 1
   \<and> total_passed (fst (snd (validate_entry py v e h))) =
       total_passed v + (if engine_validate_entry py (rule_engine v) e = [] then 1 else 0)
   \<and> total_violations (fst (snd (validate_entry py v e h))) =
       total_violations v + int (length (engine_validate_entry py (rule_engine v) e))"
  by (simp add: validate_entry_def Let_def process_violations_frame process_violations_total
      passed_def)

lemma validate_entry_list_at:
  "list_at (snd (snd (validate_entry py v e h))) a =
     (if a = all_violations v
      then list_at h a @ engine_validate_entry py (rule_engine v) e
      else list_at h a)"
  by (simp add: validate_entry_def Let_def process_violations_list_at mutate_summary_def
      notify_def)

lemma validate_entry_dict_at:
  "dict_at (snd (snd (validate_entry py v e h))) a k =
     (if a = robot_summaries v \<and> k = e_robot_id e
      then Some (count_violations (engine_validate_entry py (rule_engine v) e)
                   ((summary_at h a k)\<lparr>rs_total_entries :=
                                           rs_total_entries (summary_at h a k) + 1\<rparr>))
      else dict_at h a k)"
  by (auto simp: validate_entry_def Let_def process_violations_dict_at mutate_summary_def
      notify_def summary_at_def)

lemma validate_entry_summary_at:
  "summary_at (snd (snd (validate_entry py v e h))) (robot_summaries v) k =
     (if k = e_robot_id e
      then count_violations (engine_validate_entry py (rule_engine v) e)
             ((summary_at h (robot_summaries v) k)\<lparr>rs_total_entries :=
                rs_total_entries (summary_at h (robot_summaries v) k) + 1\<rparr>)
      else summary_at h (robot_summaries v) k)"
  by (simp add: summary_at_def [of "snd (snd (validate_entry py v e h))"] validate_entry_dict_at)
     (simp add: summary_at_def)

lemma validate_all_Cons:
  "validate_all py v (e # es) h =
     (fst (validate_entry py v e h)
        # fst (validate_all py (fst (snd (validate_entry py v e h))) es
                 (snd (snd (validate_entry py v e h)))),
      snd (validate_all py (fst (snd (validate_entry py v e h))) es
             (snd (snd (validate_entry py v e h)))))"
  by (simp split: prod.splits)

lemma validate_all_frame:
  "robot_summaries (fst (snd (validate_all py v es h))) = robot_summaries v
   \<and> all_violations (fst (snd (validate_all py v es h))) = all_violations v
   \<and> rule_engine (fst (snd (validate_all py v es h))) = rule_engine v
   \<and> next_addr (snd (snd (validate_all py v es h))) = next_addr h"
proof (induction es arbitrary: v h)
  case Nil
  show ?case by simp
next
  case (Cons e es)
  show ?case
    using Cons [of "fst (snd (validate_entry py v e h))" "snd (snd (validate_entry py v e h))"]
    by (simp only: validate_all_Cons snd_conv fst_conv validate_entry_frame)
qed

lemma validate_all_results:
  "map er_violations (fst (validate_all py v es h)) =
     map (engine_validate_entry py (rule_engine v)) es"
proof (induction es arbitrary: v h)
  case Nil
  show ?case by simp
next
  case (Cons e es)
  show ?case
    using Cons [of "fst (snd (validate_entry py v e h))" "snd (snd (validate_entry py v e h))"]
    by (simp add: validate_all_Cons validate_entry_frame validate_entry_result
        del: validate_all.simps)
qed

lemma validate_all_list_at:
  "list_at (snd (snd (validate_all py v es h))) a =
     (if a = all_violations v
      then list_at h a @ violations_of py (rule_engine v) es
      else list_at h a)"
proof (induction es arbitrary: v h)
  case Nil
  show ?case by (simp add: violations_of_def)
next
  case (Cons e es)
  show ?case
    using Cons [of "fst (snd (validate_entry py v e h))" "snd (snd (validate_entry py v e h))"]
    by (simp add: validate_all_Cons validate_entry_frame validate_entry_list_at
        violations_of_def del: validate_all.simps)
qed

lemma validate_all_dict_dom:
  "(dict_at (snd (snd (validate_all py v es h))) (robot_summaries v) k = None)
     = (dict_at h (robot_summaries v) k = None \<and> k \<notin> e_robot_id ` set es)"
proof (induction es arbitrary: v h)
  case Nil
  show ?case by simp
next
  case (Cons e es)
  show ?case
    using Cons [of "fst (snd (validate_entry py v e h))" "snd (snd (validate_entry py v e h))"]
    by (auto simp add: validate_all_Cons validate_entry_frame validate_entry_dict_at
        simp del: validate_all.simps)
qed

lemma entries_of_Nil: "entries_of k [] = []"
  by (simp add: entries_of_def)

lemma entries_of_Cons:
  "entries_of k (e # es) = (if e_robot_id e = k then e # entries_of k es else entries_of k es)"
  by (simp add: entries_of_def)

lemma violations_of_Nil: "violations_of py eng [] = []"
  by (simp add: violations_of_def)

lemma violations_of_Cons:
  "violations_of py eng (e # es) = engine_validate_entry py eng e @ violations_of py eng es"
  by (simp add: violations_of_def)

lemma validate_all_summary_at:
  "rs_total_entries (summary_at (snd (snd (validate_all py v es h))) (robot_summaries v) k) =
     rs_total_entries (summary_at h (robot_summaries v) k) + int (length (entries_of k es))
   \<and> rs_violations_count (summary_at (snd (snd (validate_all py v es h))) (robot_summaries v) k) =
     rs_violations_count (summary_at h (robot_summaries v) k)
       + int (length (violations_of py (rule_engine v) (entries_of k es)))
   \<and> rs_violations (summary_at (snd (snd (validate_all py v es h))) (robot_summaries v) k) =
     rs_violations (summary_at h (robot_summaries v) k)
       @ violations_of py (rule_engine v) (entries_of k es)
   \<and> rs_status (summary_at (snd (snd (validate_all py v es h))) (robot_summaries v) k) =
     (if violations_of py (rule_engine v) (entries_of k es) = []
      then rs_status (summary_at h (robot_summaries v) k) else FAIL)
   \<and> rs_robot_id (summary_at (snd (snd (validate_all py v es h))) (robot_summaries v) k) =
     rs_robot_id (summary_at h (robot_summaries v) k)"
proof (induction es arbitrary: v h)
  case Nil
  show ?case by (simp add: entries_of_Nil violations_of_Nil)
next
  case (Cons e es)
  let ?v1 = "fst (snd (validate_entry py v e h))"
  let ?h1 = "snd (snd (validate_entry py v e h))"
  have fr: "robot_summaries ?v1 = robot_summaries v" "rule_engine ?v1 = rule_engine v"
    by (simp_all add: validate_entry_frame)
  note ih = Cons [of ?v1 ?h1, unfolded fr]
  show ?case
  proof (cases "k = e_robot_id e")
    case True
    then show ?thesis
      using ih
      by (simp add: validate_all_Cons validate_entry_summary_at entries_of_Cons
          violations_of_Cons count_violations_def del: validate_all.simps)
  next
    case False
    then have "e_robot_id e \<noteq> k" by blast
    then show ?thesis
      using ih False
      by (simp add: validate_all_Cons validate_entry_summary_at entries_of_Cons
          del: validate_all.simps)
  qed
qed

lemma collect_violations_map_filter:
  "collect_violations py eng e rs acc =
     acc @ List.map_filter (\<lambda>r. evaluate_rule py eng r e) rs"
  by (induction rs arbitrary: acc) (simp_all add: List.map_filter_simps split: option.splits)

lemma engine_validate_entry_map_filter:
  "engine_validate_entry py eng e = List.map_filter (\<lambda>r. evaluate_rule py eng r e) (rules eng)"
  by (simp add: engine_validate_entry_def collect_violations_map_filter)

lemma Validator_init_fresh:
  assumes "Validator_init eng on_v on_e h0 = (v, h)"
  shows "rule_engine v = eng" "dict_at h (robot_summaries v) = Map.empty"
    "list_at h (all_violations v) = []" "robot_summaries v = next_addr h0"
    "all_violations v = Suc (next_addr h0)" "total_entries v = 0" "total_passed v = 0"
    "total_violations v = 0" "on_violation v = on_v" "on_entry v = on_e"
  using assms by (auto simp: Validator_init_def new_dict_def new_list_def Let_def)

lemma validate_all_entries:
  "map er_log_entry (fst (validate_all py v es h)) = es"
proof (induction es arbitrary: v h)
  case Nil
  show ?case by simp
next
  case (Cons e es)
  show ?case
    using Cons [of "fst (snd (validate_entry py v e h))" "snd (snd (validate_entry py v e h))"]
    by (simp add: validate_all_Cons validate_entry_result del: validate_all.simps)
qed

text \<open>
  Claim C9. After a sequence of entries has been processed, the results are those of the
  entries in arrival order, the violation list of each entry holds the violations of the
  catalog's rules in catalog order (the rules that produce none are skipped), and the
  Validator's global list is its earlier content followed by the violation lists of the
  entries, one after the other in arrival order. For a new Validator the global list is
  exactly that concatenation.
\<close>

theorem violations_in_arrival_and_catalog_order:
  assumes "validate_all py v es h = (results, v', h')"
  shows "map er_log_entry results = es
    \<and> map er_violations results =
        map (\<lambda>e. List.map_filter (\<lambda>r. evaluate_rule py (rule_engine v) r e)
                   (rules (rule_engine v))) es
    \<and> list_at h' (all_violations v') =
        list_at h (all_violations v) @ concat (map er_violations results)
    \<and> (\<forall>eng on_v on_e h0. Validator_init eng on_v on_e h0 = (v, h) \<longrightarrow>
          list_at h' (all_violations v') = concat (map er_violations results))"
proof -
  have r: "results = fst (validate_all py v es h)"
    and v': "v' = fst (snd (validate_all py v es h))"
    and h': "h' = snd (snd (validate_all py v es h))"
    using assms by simp_all
  have a: "map er_log_entry results = es"
    by (simp add: r validate_all_entries)
  have b: "map er_violations results = map (engine_validate_entry py (rule_engine v)) es"
    by (simp add: r validate_all_results)
  have c: "list_at h' (all_violations v') =
        list_at h (all_violations v) @ concat (map er_violations results)"
    by (simp add: b) (simp add: v' h' validate_all_frame validate_all_list_at violations_of_def)
  have d: "list_at h' (all_violations v') = concat (map er_violations results)"
    if "Validator_init eng on_v on_e h0 = (v, h)" for eng on_v on_e h0
    using c Validator_init_fresh(3) [OF that] by simp
  from a b c d show ?thesis
    by (simp add: engine_validate_entry_map_filter)
qed

text \<open>
  Claim C3. After a new Validator has processed a sequence of entries, every robot id
  \<open>E\<close> that appears has a summary: its \<open>total_entries\<close> is the number of processed
  entries of \<open>E\<close>, its \<open>violations_count\<close> is the number of violations those entries
  produced (and its violation list holds them), and its status is \<open>FAIL\<close> exactly when
  \<open>violations_count\<close> is positive.
\<close>

theorem robot_summary_counts:
  assumes "Validator_init eng on_v on_e h0 = (v, h)"
    and "validate_all py v es h = (results, v', h')"
    and "E \<in> e_robot_id ` set es"
  shows "\<exists>rs. dict_at h' (robot_summaries v') E = Some rs
    \<and> rs_robot_id rs = E
    \<and> rs_total_entries rs = int (length (entries_of E es))
    \<and> rs_violations_count rs = int (length (violations_of py eng (entries_of E es)))
    \<and> rs_violations rs = violations_of py eng (entries_of E es)
    \<and> (rs_status rs = FAIL \<longleftrightarrow> rs_violations_count rs > 0)"
proof -
  have v': "v' = fst (snd (validate_all py v es h))"
    and h': "h' = snd (snd (validate_all py v es h))"
    using assms(2) by simp_all
  have d: "robot_summaries v' = robot_summaries v"
    by (simp add: v' validate_all_frame)
  have e: "rule_engine v = eng"
    by (rule Validator_init_fresh(1) [OF assms(1)])
  have start: "summary_at h (robot_summaries v) E = RobotSummary_init E"
    by (simp add: summary_at_def Validator_init_fresh(2) [OF assms(1)])
  have "dict_at h' (robot_summaries v) E \<noteq> None"
    using assms(3) by (simp add: h' validate_all_dict_dom)
  then obtain rs where rs: "dict_at h' (robot_summaries v) E = Some rs"
    by blast
  then have sa: "summary_at h' (robot_summaries v) E = rs"
    by (simp add: summary_at_def)
  note s = validate_all_summary_at [of py v es h E, folded h', unfolded sa start e]
  have "rs_robot_id rs = E"
    and "rs_total_entries rs = int (length (entries_of E es))"
    and "rs_violations_count rs = int (length (violations_of py eng (entries_of E es)))"
    and "rs_violations rs = violations_of py eng (entries_of E es)"
    and "rs_status rs = FAIL \<longleftrightarrow> rs_violations_count rs > 0"
    using s by (simp_all add: RobotSummary_init_def)
  with rs d show ?thesis by simp
qed

text \<open>
  Claim C2, as amended. Two calls of \<open>get_report\<close> on the same Validator with the same
  arguments and nothing processed in between give reports that agree in every field
  except \<open>generated_at\<close>, which is the clock reading of each call: the two reports
  are equal exactly when the two readings are. Their summary dict and violation list are
  the same objects, so they read the same in every store.
\<close>

theorem get_report_twice_differs_only_in_timestamp:
  "get_report v rules_file input_file now2 =
     (get_report v rules_file input_file now1)\<lparr>rep_generated_at := now2 @ ''Z''\<rparr>
   \<and> report_robot_summaries h (get_report v rules_file input_file now2) =
       report_robot_summaries h (get_report v rules_file input_file now1)
   \<and> report_violations h (get_report v rules_file input_file now2) =
       report_violations h (get_report v rules_file input_file now1)
   \<and> (get_report v rules_file input_file now1 = get_report v rules_file input_file now2)
       = (now1 = now2)"
  by (auto simp: get_report_def report_robot_summaries_def report_violations_def)

lemma robot_log_rule_ids:
  "map v_rule_id (engine_validate_entry test_builtins test_engine (robot_log ts robot b s i)) =
     (if b < 20 then [''battery_min''] else []) @ (if 100 < s then [''speed_max''] else [])"
  by (simp add: engine_validate_entry_map_filter test_engine_def battery_min_def speed_max_def
      List.map_filter_simps evaluate_rule_def evaluate_rule_body_def evaluate_simple_rule_def
      evaluate_condition_str get_field_value_str robot_log_def split_eval dict_get_def
      RuleEngine_init_def default_operators_def compare_with_def rat_cmp_def)

lemma sample_rule_ids:
  "map (\<lambda>e. map v_rule_id (engine_validate_entry test_builtins test_engine e)) sample_logs =
     [[], [''battery_min''], [''speed_max''], [''battery_min'', ''speed_max'']]"
  by (simp add: sample_logs_def robot_log_rule_ids)

lemma validate_all_counters:
  "total_entries (fst (snd (validate_all py v es h))) = total_entries v + int (length es)
   \<and> total_passed (fst (snd (validate_all py v es h))) =
       total_passed v
         + int (length (filter (\<lambda>e. engine_validate_entry py (rule_engine v) e = []) es))
   \<and> total_violations (fst (snd (validate_all py v es h))) =
       total_violations v + int (length (violations_of py (rule_engine v) es))"
proof (induction es arbitrary: v h)
  case Nil
  show ?case by (simp add: violations_of_Nil)
next
  case (Cons e es)
  show ?case
    using Cons [of "fst (snd (validate_entry py v e h))" "snd (snd (validate_entry py v e h))"]
    by (simp add: validate_all_Cons validate_entry_frame validate_entry_counters
        violations_of_Cons del: validate_all.simps)
qed

lemma fresh_validator_pair:
  "Validator_init test_engine False False empty_heap = (fst fresh_validator, snd fresh_validator)"
  by (simp add: fresh_validator_def)

lemma sample_run_triple:
  "validate_all test_builtins (fst fresh_validator) sample_logs (snd fresh_validator) =
     (fst sample_run, fst (snd sample_run), snd (snd sample_run))"
  by (simp add: sample_run_def)

lemma sample_violation_rule_ids:
  "map v_rule_id (violations_of test_builtins test_engine sample_logs) =
     [''battery_min'', ''speed_max'', ''battery_min'', ''speed_max'']"
  using sample_rule_ids by (simp add: violations_of_def map_concat sample_logs_def)

theorem violations_in_arrival_and_catalog_order_witness:
  "validate_all test_builtins (fst fresh_validator) sample_logs (snd fresh_validator) =
     (fst sample_run, fst (snd sample_run), snd (snd sample_run))
   \<and> Validator_init test_engine False False empty_heap =
       (fst fresh_validator, snd fresh_validator)
   \<and> map er_log_entry (fst sample_run) = sample_logs
   \<and> list_at (snd (snd sample_run)) (all_violations (fst (snd sample_run))) =
       concat (map er_violations (fst sample_run))
   \<and> map (\<lambda>r. map v_rule_id (er_violations r)) (fst sample_run) =
       [[], [''battery_min''], [''speed_max''], [''battery_min'', ''speed_max'']]
   \<and> map v_rule_id (list_at (snd (snd sample_run)) (all_violations (fst (snd sample_run)))) =
       [''battery_min'', ''speed_max'', ''battery_min'', ''speed_max'']"
proof -
  note t = violations_in_arrival_and_catalog_order [OF sample_run_triple]
  have e: "rule_engine (fst fresh_validator) = test_engine"
    by (rule Validator_init_fresh(1) [OF fresh_validator_pair])
  have a: "map er_log_entry (fst sample_run) = sample_logs"
    using t by blast
  have b: "map er_violations (fst sample_run) =
      map (engine_validate_entry test_builtins test_engine) sample_logs"
    using t by (simp add: e engine_validate_entry_map_filter)
  have c: "list_at (snd (snd sample_run)) (all_violations (fst (snd sample_run))) =
       concat (map er_violations (fst sample_run))"
    using t fresh_validator_pair by blast
  have "map (\<lambda>r. map v_rule_id (er_violations r)) (fst sample_run) =
      map (map v_rule_id) (map er_violations (fst sample_run))"
    by simp
  also have "\<dots> = map (\<lambda>e. map v_rule_id (engine_validate_entry test_builtins test_engine e))
      sample_logs"
    by (simp only: b map_map o_def)
  finally have d: "map (\<lambda>r. map v_rule_id (er_violations r)) (fst sample_run) =
       [[], [''battery_min''], [''speed_max''], [''battery_min'', ''speed_max'']]"
    by (simp only: sample_rule_ids)
  have f: "map v_rule_id (list_at (snd (snd sample_run)) (all_violations (fst (snd sample_run)))) =
       [''battery_min'', ''speed_max'', ''battery_min'', ''speed_max'']"
    using sample_violation_rule_ids by (simp add: c b violations_of_def)
  from sample_run_triple fresh_validator_pair a c d f show ?thesis
    by simp
qed

lemma robot_log_violation_count:
  "length (engine_validate_entry test_builtins test_engine (robot_log ts robot b s i)) =
     (if b < 20 then 1 else 0) + (if 100 < s then 1 else 0)"
  using arg_cong [OF robot_log_rule_ids [of ts robot b s i], of length]
  by (simp del: robot_log_rule_ids)

lemma robot_log_robot: "e_robot_id (robot_log ts robot b s i) = robot"
  by (simp add: robot_log_def)

theorem robot_summary_counts_witness:
  "Validator_init test_engine False False empty_heap =
       (fst fresh_validator, snd fresh_validator)
   \<and> validate_all test_builtins (fst fresh_validator) sample_logs (snd fresh_validator) =
       (fst sample_run, fst (snd sample_run), snd (snd sample_run))
   \<and> ''ROBOT_002'' \<in> e_robot_id ` set sample_logs
   \<and> map_option rs_total_entries
        (dict_at (snd (snd sample_run)) (robot_summaries (fst (snd sample_run))) ''ROBOT_002'')
       = Some 2
   \<and> map_option rs_violations_count
        (dict_at (snd (snd sample_run)) (robot_summaries (fst (snd sample_run))) ''ROBOT_002'')
       = Some 3
   \<and> map_option rs_status
        (dict_at (snd (snd sample_run)) (robot_summaries (fst (snd sample_run))) ''ROBOT_002'')
       = Some FAIL"
proof -
  have m: "''ROBOT_002'' \<in> e_robot_id ` set sample_logs"
    by (simp add: sample_logs_def robot_log_robot)
  have n: "length (entries_of ''ROBOT_002'' sample_logs) = 2"
    by (simp add: sample_logs_def entries_of_Cons entries_of_Nil robot_log_robot)
  have k: "length (violations_of test_builtins test_engine (entries_of ''ROBOT_002'' sample_logs))
      = 3"
    by (simp add: sample_logs_def entries_of_Cons entries_of_Nil robot_log_robot
        violations_of_Cons violations_of_Nil robot_log_violation_count)
  from robot_summary_counts [OF fresh_validator_pair sample_run_triple m]
  obtain rs where
    "dict_at (snd (snd sample_run)) (robot_summaries (fst (snd sample_run))) ''ROBOT_002'' = Some rs"
    "rs_total_entries rs = int (length (entries_of ''ROBOT_002'' sample_logs))"
    "rs_violations_count rs =
       int (length (violations_of test_builtins test_engine (entries_of ''ROBOT_002'' sample_logs)))"
    "rs_status rs = FAIL \<longleftrightarrow> rs_violations_count rs > 0"
    by blast
  then have "map_option rs_total_entries
        (dict_at (snd (snd sample_run)) (robot_summaries (fst (snd sample_run))) ''ROBOT_002'')
       = Some 2"
    and "map_option rs_violations_count
        (dict_at (snd (snd sample_run)) (robot_summaries (fst (snd sample_run))) ''ROBOT_002'')
       = Some 3"
    and "map_option rs_status
        (dict_at (snd (snd sample_run)) (robot_summaries (fst (snd sample_run))) ''ROBOT_002'')
       = Some FAIL"
    by (simp_all add: n k)
  with fresh_validator_pair sample_run_triple m show ?thesis
    by simp
qed

lemma sample_run_counters:
  "total_entries (fst (snd sample_run)) = 4
   \<and> total_passed (fst (snd sample_run)) = 1
   \<and> total_violations (fst (snd sample_run)) = 4"
proof -
  have e: "rule_engine (fst fresh_validator) = test_engine"
    by (rule Validator_init_fresh(1) [OF fresh_validator_pair])
  have z: "total_entries (fst fresh_validator) = 0" "total_passed (fst fresh_validator) = 0"
    "total_violations (fst fresh_validator) = 0"
    by (rule Validator_init_fresh [OF fresh_validator_pair])+
  have p: "engine_validate_entry test_builtins test_engine (robot_log ts robot b s i) = []
      \<longleftrightarrow> \<not> b < 20 \<and> \<not> 100 < s" for ts robot b s i
    by (simp add: length_0_conv [symmetric] robot_log_violation_count del: length_0_conv)
  show ?thesis
    using validate_all_counters [of test_builtins "fst fresh_validator" sample_logs
        "snd fresh_validator"]
    by (simp add: sample_run_def [symmetric] e z)
       (simp add: sample_logs_def p violations_of_Cons violations_of_Nil
         robot_log_violation_count)
qed

text \<open>
  Claim C8, as amended. In every Validator state \<open>pass_rate\<close> is 100 when no entry has
  been processed; otherwise it is the double the code computes, the quotient
  \<open>total_passed / total_entries\<close> rounded to a double, multiplied by 100 and rounded
  again. For \<open>0 \<le> total_passed \<le> total_entries \<le> 2 ^ 1022\<close> it differs from
  \<open>100 * total_passed / total_entries\<close> by at most that value times
  \<open>1 / 2 ^ 52 + 1 / 2 ^ 106\<close>. The report carries the same value. Six states give
  the doubles Python prints as 25.0, 28.000000000000004, 33.33333333333333, 50.0 (a tie
  rounded down to the even neighbour), 50.00000000000002 (a tie rounded up) and
  9.9e-322 (a subnormal result).
\<close>

theorem pass_rate_rounded:
  "(total_entries v = 0 \<longrightarrow> pass_rate v = 100)
   \<and> (total_entries v \<noteq> 0 \<longrightarrow>
        pass_rate v =
          round_to_double
            (round_to_double (of_int (total_passed v) / of_int (total_entries v)) * 100))
   \<and> (0 \<le> total_passed v \<and> total_passed v \<le> total_entries v
        \<and> 0 < total_entries v \<and> total_entries v \<le> 2 ^ 1022 \<longrightarrow>
        \<bar>pass_rate v - 100 * of_int (total_passed v) / of_int (total_entries v)\<bar>
          \<le> (100 * of_int (total_passed v) / of_int (total_entries v))
               * (1 / 2 ^ 52 + 1 / 2 ^ 106))
   \<and> rep_pass_rate (get_report v rules_file input_file now) = pass_rate v
   \<and> pass_rate (v\<lparr>total_entries := 4, total_passed := 1\<rparr>) = 25
   \<and> pass_rate (v\<lparr>total_entries := 25, total_passed := 7\<rparr>) = 7881299347898369 / 2 ^ 48
   \<and> pass_rate (v\<lparr>total_entries := 3, total_passed := 1\<rparr>) = 2345624805922133 / 2 ^ 46
   \<and> pass_rate (v\<lparr>total_entries := 2 ^ 54, total_passed := 2 ^ 53 + 1\<rparr>) = 50
   \<and> pass_rate (v\<lparr>total_entries := 2 ^ 54, total_passed := 2 ^ 53 + 3\<rparr>)
       = 7036874417766403 / 2 ^ 47
   \<and> pass_rate (v\<lparr>total_entries := 2 ^ 1075, total_passed := 3\<rparr>) = 25 / 2 ^ 1071"
proof (intro conjI impI)
  show "pass_rate (v\<lparr>total_entries := 4, total_passed := 1\<rparr>) = 25"
    by (rule trans [OF pass_rate_fields percent_1_of_4]) simp_all
  show "pass_rate (v\<lparr>total_entries := 25, total_passed := 7\<rparr>) = 7881299347898369 / 2 ^ 48"
    by (rule trans [OF pass_rate_fields percent_7_of_25]) simp_all
  show "pass_rate (v\<lparr>total_entries := 3, total_passed := 1\<rparr>) = 2345624805922133 / 2 ^ 46"
    by (rule trans [OF pass_rate_fields percent_1_of_3]) simp_all
  show "pass_rate (v\<lparr>total_entries := 2 ^ 54, total_passed := 2 ^ 53 + 1\<rparr>) = 50"
    by (rule trans [OF pass_rate_fields percent_tie_down]) simp_all
  show "pass_rate (v\<lparr>total_entries := 2 ^ 54, total_passed := 2 ^ 53 + 3\<rparr>)
       = 7036874417766403 / 2 ^ 47"
    by (rule trans [OF pass_rate_fields percent_tie_up]) simp_all
  show "pass_rate (v\<lparr>total_entries := 2 ^ 1075, total_passed := 3\<rparr>) = 25 / 2 ^ 1071"
    by (rule trans [OF pass_rate_fields percent_subnormal]) simp_all
  show "pass_rate v = 100" if "total_entries v = 0"
    using that by (simp add: pass_rate_def)
  show "pass_rate v =
          round_to_double
            (round_to_double (of_int (total_passed v) / of_int (total_entries v)) * 100)"
    if "total_entries v \<noteq> 0"
    using that by (simp add: pass_rate_def float_mul_def int_truediv_def)
  show "\<bar>pass_rate v - 100 * of_int (total_passed v) / of_int (total_entries v)\<bar>
          \<le> (100 * of_int (total_passed v) / of_int (total_entries v))
               * (1 / 2 ^ 52 + 1 / 2 ^ 106)"
    if "0 \<le> total_passed v \<and> total_passed v \<le> total_entries v
        \<and> 0 < total_entries v \<and> total_entries v \<le> 2 ^ 1022"
  proof -
    have "pass_rate v = float_mul (int_truediv (total_passed v) (total_entries v)) 100"
      using that by (simp add: pass_rate_def)
    moreover have
      "\<bar>float_mul (int_truediv (total_passed v) (total_entries v)) 100
          - 100 * of_int (total_passed v) / of_int (total_entries v)\<bar>
        \<le> (100 * of_int (total_passed v) / of_int (total_entries v))
             * (1 / 2 ^ 52 + 1 / 2 ^ 106)"
      using that by (intro percent_error) simp_all
    ultimately show ?thesis by (simp only:)
  qed
  show "rep_pass_rate (get_report v rules_file input_file now) = pass_rate v"
    by (simp add: get_report_def)
qed

theorem pass_rate_rounded_witness:
  "total_entries (fst fresh_validator) = 0
   \<and> pass_rate (fst fresh_validator) = 100
   \<and> total_entries (fst (snd sample_run)) \<noteq> 0
   \<and> 0 \<le> total_passed (fst (snd sample_run))
   \<and> total_passed (fst (snd sample_run)) \<le> total_entries (fst (snd sample_run))
   \<and> 0 < total_entries (fst (snd sample_run))
   \<and> total_entries (fst (snd sample_run)) \<le> 2 ^ 1022
   \<and> pass_rate (fst (snd sample_run)) = 25
   \<and> \<bar>pass_rate (fst (snd sample_run))
         - 100 * of_int (total_passed (fst (snd sample_run)))
             / of_int (total_entries (fst (snd sample_run)))\<bar>
       \<le> (100 * of_int (total_passed (fst (snd sample_run)))
             / of_int (total_entries (fst (snd sample_run))))
            * (1 / 2 ^ 52 + 1 / 2 ^ 106)"
proof -
  let ?v = "fst (snd sample_run)"
  have z: "total_entries (fst fresh_validator) = 0"
    by (rule Validator_init_fresh [OF fresh_validator_pair])
  have a: "pass_rate (fst fresh_validator) = 100"
    using pass_rate_rounded [of "fst fresh_validator", THEN conjunct1] z by (rule mp)
  have t: "total_entries ?v = 4" and p: "total_passed ?v = 1"
    using sample_run_counters by simp_all
  have n: "total_entries ?v \<noteq> 0" "0 \<le> total_passed ?v" "total_passed ?v \<le> total_entries ?v"
    "0 < total_entries ?v"
    by (simp_all add: t p)
  have r: "total_entries ?v \<le> 2 ^ 1022"
    unfolding t by (rule order_trans [of _ "2 ^ 2"]) (simp, rule power_increasing, simp_all)
  have "pass_rate ?v = round_to_double (round_to_double (of_int 1 / of_int 4) * 100)"
    using pass_rate_rounded [of ?v, THEN conjunct2, THEN conjunct1] n(1)
    by (simp only: t p) blast
  also have "\<dots> = float_mul (int_truediv 1 4) 100"
    by (simp only: float_mul_def int_truediv_def)
  also have "\<dots> = 25"
    by (rule percent_1_of_4)
  finally have b: "pass_rate ?v = 25" .
  have c: "\<bar>pass_rate ?v - 100 * of_int (total_passed ?v) / of_int (total_entries ?v)\<bar>
       \<le> (100 * of_int (total_passed ?v) / of_int (total_entries ?v))
            * (1 / 2 ^ 52 + 1 / 2 ^ 106)"
    using pass_rate_rounded [of ?v, THEN conjunct2, THEN conjunct2, THEN conjunct1] n r
    by blast
  from z a n r b c show ?thesis
    by (intro conjI)
qed

lemma run_7_of_25_counters:
  "total_entries (fst (snd run_7_of_25)) = 25 \<and> total_passed (fst (snd run_7_of_25)) = 7"
proof -
  have e: "rule_engine (fst fresh_validator) = test_engine"
    by (rule Validator_init_fresh(1) [OF fresh_validator_pair])
  have z: "total_entries (fst fresh_validator) = 0" "total_passed (fst fresh_validator) = 0"
    by (rule Validator_init_fresh [OF fresh_validator_pair])+
  have p: "engine_validate_entry test_builtins test_engine (robot_log ts robot b s i) = []
      \<longleftrightarrow> \<not> b < 20 \<and> \<not> 100 < s" for ts robot b s i
    by (simp add: length_0_conv [symmetric] robot_log_violation_count del: length_0_conv)
  show ?thesis
    unfolding run_7_of_25_def
    by (simp only: validate_all_counters e z) (simp add: p)
qed

text \<open>
  Claim C8 as stated fails: after 25 entries of which 7 passed, \<open>100 * 7 / 25\<close> is 28,
  and the code's \<open>(7 / 25) * 100\<close> is the next double above 28.
\<close>

theorem pass_rate_formula_counterexample:
  "total_entries (fst (snd run_7_of_25)) = 25
   \<and> total_passed (fst (snd run_7_of_25)) = 7
   \<and> pass_rate (fst (snd run_7_of_25)) = 7881299347898369 / 2 ^ 48
   \<and> pass_rate (fst (snd run_7_of_25))
       \<noteq> 100 * of_int (total_passed (fst (snd run_7_of_25)))
             / of_int (total_entries (fst (snd run_7_of_25)))"
proof -
  let ?v = "fst (snd run_7_of_25)"
  have t: "total_entries ?v = 25" and p: "total_passed ?v = 7"
    using run_7_of_25_counters by simp_all
  have "pass_rate ?v = float_mul (int_truediv 7 25) 100"
    by (simp add: pass_rate_def t p)
  then have r: "pass_rate ?v = 7881299347898369 / 2 ^ 48"
    by (simp only: percent_7_of_25)
  have n: "pass_rate ?v \<noteq> 100 * of_int (total_passed ?v) / of_int (total_entries ?v)"
    by (simp add: r t p)
  from t p r n show ?thesis
    by (intro conjI)
qed

text \<open>
  Claim C2 as stated fails: two reports of the same new Validator, constructed one
  microsecond apart, differ.
\<close>

theorem get_report_twice_counterexample:
  "get_report (fst fresh_validator) ''rules.json'' ''logs.json'' ''2024-01-15T09:00:00.000001''
   \<noteq> get_report (fst fresh_validator) ''rules.json'' ''logs.json''
        ''2024-01-15T09:00:00.000002''"
  by (simp add: get_report_def)

lemma after_two_frame:
  "robot_summaries (fst (snd after_two)) = robot_summaries (fst fresh_validator)
   \<and> all_violations (fst (snd after_two)) = all_violations (fst fresh_validator)
   \<and> rule_engine (fst (snd after_two)) = test_engine"
  by (simp add: after_two_def validate_all_frame
      Validator_init_fresh(1) [OF fresh_validator_pair])

lemma snapshot_violations_before:
  "map v_rule_id (report_violations (snd (snd after_two)) snapshot) = [''battery_min'']"
proof -
  have "report_violations (snd (snd after_two)) snapshot =
      violations_of test_builtins test_engine (take 2 sample_logs)"
    by (simp add: report_violations_def snapshot_def get_report_def after_two_frame)
       (simp add: after_two_def validate_all_list_at
         Validator_init_fresh(1,3) [OF fresh_validator_pair])
  then show ?thesis
    by (simp add: sample_logs_def violations_of_Cons violations_of_Nil robot_log_rule_ids)
qed

lemma snapshot_violations_after:
  "map v_rule_id (report_violations (snd (snd after_three)) snapshot) =
     [''battery_min'', ''speed_max'']"
proof -
  have "report_violations (snd (snd after_three)) snapshot =
      report_violations (snd (snd after_two)) snapshot
        @ engine_validate_entry test_builtins test_engine (sample_logs ! 2)"
    by (simp add: report_violations_def snapshot_def get_report_def after_three_def
        validate_entry_list_at after_two_frame)
  then show ?thesis
    using snapshot_violations_before
    by (simp add: sample_logs_def robot_log_rule_ids)
qed

lemma snapshot_summaries_before:
  "report_robot_summaries (snd (snd after_two)) snapshot ''ROBOT_002'' = None"
proof -
  have "report_robot_summaries (snd (snd after_two)) snapshot ''ROBOT_002'' =
      dict_at (snd (snd after_two)) (robot_summaries (fst fresh_validator)) ''ROBOT_002''"
    by (simp add: report_robot_summaries_def snapshot_def get_report_def after_two_frame)
  also have "\<dots> = None"
    unfolding after_two_def validate_all_dict_dom
    by (simp add: Validator_init_fresh(2) [OF fresh_validator_pair] sample_logs_def
        robot_log_robot)
  finally show ?thesis .
qed

lemma snapshot_summaries_after:
  "map_option rs_total_entries
     (report_robot_summaries (snd (snd after_three)) snapshot ''ROBOT_002'') = Some 1"
proof -
  have r: "e_robot_id (sample_logs ! 2) = ''ROBOT_002''"
    by (simp add: sample_logs_def robot_log_robot)
  have "summary_at (snd (snd after_two)) (robot_summaries (fst (snd after_two))) ''ROBOT_002''
      = RobotSummary_init ''ROBOT_002''"
    using snapshot_summaries_before
    by (simp add: summary_at_def report_robot_summaries_def snapshot_def get_report_def)
  then show ?thesis
    by (simp add: report_robot_summaries_def snapshot_def get_report_def after_three_def
        validate_entry_dict_at r count_violations_def RobotSummary_init_def)
qed

text \<open>
  Claim C1 at a concrete input. A report is taken after the first two sample entries;
  then the third entry is processed. Read through the report taken before, the violation
  list has grown from one violation to two, and the summary dict has gained an entry for
  \<open>ROBOT_002\<close>: both fields of the report have changed.
\<close>

theorem report_shares_validator_containers:
  "map v_rule_id (report_violations (snd (snd after_two)) snapshot) = [''battery_min'']
   \<and> map v_rule_id (report_violations (snd (snd after_three)) snapshot) =
       [''battery_min'', ''speed_max'']
   \<and> report_robot_summaries (snd (snd after_two)) snapshot ''ROBOT_002'' = None
   \<and> map_option rs_total_entries
        (report_robot_summaries (snd (snd after_three)) snapshot ''ROBOT_002'') = Some 1
   \<and> report_violations (snd (snd after_three)) snapshot
       \<noteq> report_violations (snd (snd after_two)) snapshot
   \<and> report_robot_summaries (snd (snd after_three)) snapshot
       \<noteq> report_robot_summaries (snd (snd after_two)) snapshot"
proof -
  have a: "report_violations (snd (snd after_three)) snapshot
       \<noteq> report_violations (snd (snd after_two)) snapshot"
    using snapshot_violations_before snapshot_violations_after by auto
  have b: "report_robot_summaries (snd (snd after_three)) snapshot
       \<noteq> report_robot_summaries (snd (snd after_two)) snapshot"
    using snapshot_summaries_before snapshot_summaries_after by auto
  from snapshot_violations_before snapshot_violations_after snapshot_summaries_before
    snapshot_summaries_after a b
  show ?thesis by simp
qed

text \<open>The fields of a report that are values of their own are not touched.\<close>

lemma report_value_fields_fixed:
  "get_report v rules_file input_file now = report \<Longrightarrow>
   validate_entry py v entry h = (result, v', h') \<Longrightarrow>
   rep_total_entries report = total_entries v
   \<and> rep_violations_by_rule report = violations_by_rule v
   \<and> rep_robot_summaries report = robot_summaries v'
   \<and> rep_violations report = all_violations v'"
  using validate_entry_frame [of py v entry h]
  by (auto simp: get_report_def)

end
